theory Spec2Isabelle
  imports Complex_Main "HOL-Library.Sublist"
begin

section \<open>Time values and the calendar of ECMAScript\<close>

text \<open>
  \<^verbatim>\<open>App.tsx\<close> computes with the \<^verbatim>\<open>Date\<close> objects of its host. A \<^verbatim>\<open>Date\<close> wraps a time
  value, the number of milliseconds since 1970-01-01T00:00:00Z, and the language standard
  (ECMA-262, "Date Objects") fixes the calendar arithmetic on time values. The
  definitions of this section follow that text, name by name.

  Scope of the model: a time value is an integer, or NaN for the Invalid Date (\<open>None\<close>
  below), and a Number is an exact rational. ECMAScript restricts time values to
  100,000,000 days on either side of the epoch (\<^verbatim>\<open>TimeClip\<close>: a \<^verbatim>\<open>Date\<close> constructed outside
  is the Invalid Date) and computes in binary floating point. The time values of valid
  dates are integers that binary64 represents exactly, and so is the difference of two
  of them in a zone whose offsets are whole seconds. The error of the one inexact
  operation of the source, the division by 86,400,000, is at most 2 to the power -25 of
  a day: too small to move a quotient across a half, where \<^verbatim>\<open>Math.round\<close> changes its
  result, unless the quotient is within three milliseconds of one. The rounding of the
  division is not modelled; the limit of the time values and NaN are.
\<close>

definition msPerDay :: int where
  "msPerDay = 86400000"

definition Day :: "int \<Rightarrow> int" where
  "Day t = t div msPerDay"

definition DaysInYear :: "int \<Rightarrow> int" where
  "DaysInYear y =
     (if y mod 4 \<noteq> 0 then 365
      else if y mod 100 \<noteq> 0 then 366
      else if y mod 400 \<noteq> 0 then 365
      else 366)"

definition DayFromYear :: "int \<Rightarrow> int" where
  "DayFromYear y =
     365 * (y - 1970) + (y - 1969) div 4 - (y - 1901) div 100 + (y - 1601) div 400"

definition TimeFromYear :: "int \<Rightarrow> int" where
  "TimeFromYear y = msPerDay * DayFromYear y"

text \<open>
  The standard defines \<^verbatim>\<open>YearFromTime(t)\<close> as the largest year \<open>y\<close> with
  \<^verbatim>\<open>TimeFromYear(y)\<close> at most \<open>t\<close>. The definition below computes it: an estimate from the
  mean length of the Gregorian year (146097 days in 400 years), moved by one year where
  the estimate misses. Lemma \<open>YearFromTime_largest\<close> shows that this is the year the
  standard means.
\<close>

definition YearFromTime :: "int \<Rightarrow> int" where
  "YearFromTime t =
     (let d = Day t; y = 1970 + (400 * d) div 146097
      in if d < DayFromYear y then y - 1
         else if DayFromYear (y + 1) \<le> d then y + 1
         else y)"

definition InLeapYear :: "int \<Rightarrow> int" where
  "InLeapYear t = (if DaysInYear (YearFromTime t) = 366 then 1 else 0)"

definition DayWithinYear :: "int \<Rightarrow> int" where
  "DayWithinYear t = Day t - DayFromYear (YearFromTime t)"

definition MonthFromTime :: "int \<Rightarrow> int" where
  "MonthFromTime t =
     (let d = DayWithinYear t; l = InLeapYear t
      in if d < 31 then 0
         else if d < 59 + l then 1
         else if d < 90 + l then 2
         else if d < 120 + l then 3
         else if d < 151 + l then 4
         else if d < 181 + l then 5
         else if d < 212 + l then 6
         else if d < 243 + l then 7
         else if d < 273 + l then 8
         else if d < 304 + l then 9
         else if d < 334 + l then 10
         else 11)"

definition DateFromTime :: "int \<Rightarrow> int" where
  "DateFromTime t =
     (let d = DayWithinYear t; l = InLeapYear t; m = MonthFromTime t
      in if m = 0 then d + 1
         else if m = 1 then d - 30
         else if m = 2 then d - 58 - l
         else if m = 3 then d - 89 - l
         else if m = 4 then d - 119 - l
         else if m = 5 then d - 150 - l
         else if m = 6 then d - 180 - l
         else if m = 7 then d - 211 - l
         else if m = 8 then d - 242 - l
         else if m = 9 then d - 272 - l
         else if m = 10 then d - 303 - l
         else d - 333 - l)"

text \<open>
  \<^verbatim>\<open>MakeDay(year, month, date)\<close>: the standard asks for the day number of the first of
  month \<open>mn\<close> in year \<open>ym\<close>, plus \<open>date - 1\<close>; lemma \<open>MakeDay_first_of_month\<close> shows
  that the definition below gives that day. \<open>DayFromMonth\<close> is the number of days of
  the year before month \<open>mn\<close> (\<open>0\<close> is January).
\<close>

definition DayFromMonth :: "int \<Rightarrow> int \<Rightarrow> int" where
  "DayFromMonth mn l =
     (if mn = 0 then 0
      else if mn = 1 then 31
      else if mn = 2 then 59 + l
      else if mn = 3 then 90 + l
      else if mn = 4 then 120 + l
      else if mn = 5 then 151 + l
      else if mn = 6 then 181 + l
      else if mn = 7 then 212 + l
      else if mn = 8 then 243 + l
      else if mn = 9 then 273 + l
      else if mn = 10 then 304 + l
      else 334 + l)"

definition MakeDay :: "int \<Rightarrow> int \<Rightarrow> int \<Rightarrow> int" where
  "MakeDay year month date =
     (let ym = year + month div 12; mn = month mod 12;
          l = (if DaysInYear ym = 366 then 1 else 0)
      in DayFromYear ym + DayFromMonth mn l + date - 1)"

definition MakeTime :: "int \<Rightarrow> int \<Rightarrow> int \<Rightarrow> int \<Rightarrow> int" where
  "MakeTime hour minute sec ms = hour * 3600000 + minute * 60000 + sec * 1000 + ms"

definition MakeDate :: "int \<Rightarrow> int \<Rightarrow> int" where
  "MakeDate day time = day * msPerDay + time"

subsection \<open>The time zone of the host\<close>

text \<open>
  The offset of local time from UTC belongs to the host, not to the program. The
  standard's \<^verbatim>\<open>LocalTZA(t, isUTC)\<close> is a parameter of the model: \<open>tza t True\<close> is the
  offset in milliseconds in force at the instant \<open>t\<close>, \<open>tza t False\<close> the offset to use
  for the local time \<open>t\<close>.
\<close>

type_synonym LocalTZA = "int \<Rightarrow> bool \<Rightarrow> int"

definition LocalTime :: "LocalTZA \<Rightarrow> int \<Rightarrow> int" where
  "LocalTime tza t = t + tza t True"

definition UTC :: "LocalTZA \<Rightarrow> int \<Rightarrow> int" where
  "UTC tza t = t - tza t False"

subsection \<open>Date objects\<close>

text \<open>
  The time value of a \<^verbatim>\<open>Date\<close> is a Number: an integer of magnitude at most
  8,640,000,000,000,000, or NaN, which is \<open>None\<close> here. A \<^verbatim>\<open>Date\<close> whose time value is NaN
  is the Invalid Date. \<^verbatim>\<open>TimeClip\<close> ends every constructor of a \<^verbatim>\<open>Date\<close> from
  components.
\<close>

datatype Date = Date (getTime: "int option")

definition TimeClip :: "int \<Rightarrow> int option" where
  "TimeClip t = (if \<bar>t\<bar> > 8640000000000000 then None else Some t)"

text \<open>
  \<^verbatim>\<open>new Date(year, month, date)\<close>: local midnight of the given calendar day. The
  arguments are Numbers; with a NaN among them the result is the Invalid Date. A year
  from 0 to 99 means 1900 + year, as the standard prescribes for this constructor.
\<close>

definition new_Date :: "LocalTZA \<Rightarrow> int option \<Rightarrow> int option \<Rightarrow> int option \<Rightarrow> Date" where
  "new_Date tza year month date =
     (case (year, month, date) of
        (Some y, Some m, Some dt) \<Rightarrow>
          (let yr = (if 0 \<le> y \<and> y \<le> 99 then 1900 + y else y);
               finalDate = MakeDate (MakeDay yr m dt) (MakeTime 0 0 0 0)
           in Date (TimeClip (UTC tza finalDate)))
      | _ \<Rightarrow> Date None)"

text \<open>The getters return NaN for the Invalid Date.\<close>

definition getFullYear :: "LocalTZA \<Rightarrow> Date \<Rightarrow> int option" where
  "getFullYear tza a = map_option (\<lambda>t. YearFromTime (LocalTime tza t)) (getTime a)"

definition getMonth :: "LocalTZA \<Rightarrow> Date \<Rightarrow> int option" where
  "getMonth tza a = map_option (\<lambda>t. MonthFromTime (LocalTime tza t)) (getTime a)"

definition getDate :: "LocalTZA \<Rightarrow> Date \<Rightarrow> int option" where
  "getDate tza a = map_option (\<lambda>t. DateFromTime (LocalTime tza t)) (getTime a)"

text \<open>
  \<^verbatim>\<open>a >= b\<close> on two \<^verbatim>\<open>Date\<close> objects compares their time values, and is false when
  one of them is NaN.
\<close>

definition Number_ge :: "int option \<Rightarrow> int option \<Rightarrow> bool" where
  "Number_ge x y = (case (x, y) of (Some a, Some b) \<Rightarrow> a \<ge> b | _ \<Rightarrow> False)"

text \<open>
  \<^verbatim>\<open>Math.round\<close>: the nearest integer, the larger one at a tie.
\<close>

definition Math_round :: "rat \<Rightarrow> int" where
  "Math_round x = \<lfloor>x + 1 / 2\<rfloor>"

section \<open>Date arithmetic of the countdown (App.tsx)\<close>

definition CNY_DATES :: "(int \<times> int \<times> int) list" where
  "CNY_DATES =
     [(2025, 1, 29), (2026, 2, 17), (2027, 2, 6), (2028, 1, 26),
      (2029, 2, 13), (2030, 2, 3), (2031, 1, 23), (2032, 2, 11),
      (2033, 1, 31), (2034, 2, 19), (2035, 2, 8), (2036, 1, 28)]"

text \<open>
  The \<^verbatim>\<open>for\<close> loop of \<^verbatim>\<open>getNextCNY\<close>: it leaves the function at the first entry whose
  \<^verbatim>\<open>Date\<close> is not before \<open>today\<close>, and falls through (\<open>None\<close>) when there is none.
\<close>

fun scan_CNY :: "LocalTZA \<Rightarrow> Date \<Rightarrow> (int \<times> int \<times> int) list \<Rightarrow> Date option" where
  "scan_CNY tza today [] = None"
| "scan_CNY tza today ((y, m, d) # rest) =
     (let cny = new_Date tza (Some y) (Some (m - 1)) (Some d)
      in if Number_ge (getTime cny) (getTime today) then Some cny
         else scan_CNY tza today rest)"

text \<open>
  \<^verbatim>\<open>getNextCNY\<close> reads the clock (\<^verbatim>\<open>new Date()\<close>, which is never the Invalid Date); the
  time value of the reading is the argument \<open>clock\<close>.
\<close>

definition getNextCNY :: "LocalTZA \<Rightarrow> int \<Rightarrow> Date" where
  "getNextCNY tza clock =
     (let now = Date (Some clock);
          today = new_Date tza (getFullYear tza now) (getMonth tza now) (getDate tza now)
      in case scan_CNY tza today CNY_DATES of
           Some cny \<Rightarrow> cny
         | None \<Rightarrow>
             (case CNY_DATES ! (length CNY_DATES - 1) of
                (y, m, d) \<Rightarrow> new_Date tza (Some (y + 1)) (Some (m - 1)) (Some d)))"

text \<open>
  \<^verbatim>\<open>daysBetween\<close> returns a Number: NaN (\<open>None\<close>) when one of the two truncated dates is
  the Invalid Date.
\<close>

definition daysBetween :: "LocalTZA \<Rightarrow> Date \<Rightarrow> Date \<Rightarrow> int option" where
  "daysBetween tza a b =
     (let aDay = new_Date tza (getFullYear tza a) (getMonth tza a) (getDate tza a);
          bDay = new_Date tza (getFullYear tza b) (getMonth tza b) (getDate tza b)
      in case (getTime bDay, getTime aDay) of
           (Some tb, Some ta) \<Rightarrow> Some (Math_round (of_int (tb - ta) / of_int msPerDay))
         | _ \<Rightarrow> None)"

text \<open>
  The \<^verbatim>\<open>useMemo\<close> callback of \<^verbatim>\<open>App\<close>. The clock is read twice: by the callback itself
  (\<open>clock1\<close>, for \<open>today\<close>) and then inside \<^verbatim>\<open>getNextCNY\<close> (\<open>clock2\<close>).
\<close>

definition daysLeft :: "LocalTZA \<Rightarrow> int \<Rightarrow> int \<Rightarrow> int option" where
  "daysLeft tza clock1 clock2 =
     (let now = Date (Some clock1);
          today = new_Date tza (getFullYear tza now) (getMonth tza now) (getDate tza now)
      in daysBetween tza today (getNextCNY tza clock2))"

subsection \<open>The contract of section 4.1 of the specification\<close>

text \<open>
  The specification words the lookup over calendar dates. \<open>calendar_date\<close> is the local
  calendar date of a time value as a triple like those of the table (the month counts
  from 1), \<open>date_le\<close> the order of calendar dates, and \<open>nextHoliday\<close> follows the
  specification's sentence: the first entry whose date is greater than or equal to
  today, and else one year after the last entry with the last entry's month and day.
  The \<^verbatim>\<open>Date\<close> of a calendar day is the local midnight of its serial number;
  \<open>calendar_day\<close> is the serial number of the local calendar day of a time value,
  \<open>HolidayDate_day\<close> the serial number of a table entry.
\<close>

definition calendar_date :: "LocalTZA \<Rightarrow> int \<Rightarrow> int \<times> int \<times> int" where
  "calendar_date tza t =
     (YearFromTime (LocalTime tza t), MonthFromTime (LocalTime tza t) + 1,
      DateFromTime (LocalTime tza t))"

definition date_le :: "int \<times> int \<times> int \<Rightarrow> int \<times> int \<times> int \<Rightarrow> bool" where
  "date_le p q =
     (case p of (y, m, d) \<Rightarrow> case q of (y', m', d') \<Rightarrow>
        y < y' \<or> (y = y' \<and> (m < m' \<or> (m = m' \<and> d \<le> d'))))"

definition date_less :: "int \<times> int \<times> int \<Rightarrow> int \<times> int \<times> int \<Rightarrow> bool" where
  "date_less p q \<longleftrightarrow> date_le p q \<and> p \<noteq> q"

definition calendar_day :: "LocalTZA \<Rightarrow> int \<Rightarrow> int" where
  "calendar_day tza t = Day (LocalTime tza t)"

definition HolidayDate_day :: "int \<times> int \<times> int \<Rightarrow> int" where
  "HolidayDate_day e = (case e of (y, m, d) \<Rightarrow> MakeDay y (m - 1) d)"

definition local_midnight :: "LocalTZA \<Rightarrow> int \<Rightarrow> Date" where
  "local_midnight tza k = Date (TimeClip (UTC tza (k * msPerDay)))"

definition nextHoliday :: "LocalTZA \<Rightarrow> int \<Rightarrow> Date" where
  "nextHoliday tza today =
     (case find (\<lambda>e. date_le (calendar_date tza today) e) CNY_DATES of
        Some e \<Rightarrow> local_midnight tza (HolidayDate_day e)
      | None \<Rightarrow>
          (case last CNY_DATES of (y, m, d) \<Rightarrow> local_midnight tza (MakeDay (y + 1) (m - 1) d)))"

text \<open>
  \<^verbatim>\<open>new Date(a.getFullYear(), a.getMonth(), a.getDate())\<close> occurs four times in the
  source. For a \<^verbatim>\<open>Date\<close> with time value \<open>t\<close> it is the local midnight of the day
  \<open>truncated_day t\<close>: the calendar day of \<open>t\<close>, but for the years 0 to 99, which the
  constructor reads as 1900 to 1999. The midnight of a day is a \<^verbatim>\<open>Date\<close> when it lies
  inside the range of time values (\<open>valid_day\<close>), and the Invalid Date otherwise.
\<close>

definition truncated_day :: "LocalTZA \<Rightarrow> int \<Rightarrow> int" where
  "truncated_day tza t =
     MakeDay (if 0 \<le> YearFromTime (LocalTime tza t) \<and> YearFromTime (LocalTime tza t) \<le> 99
              then 1900 + YearFromTime (LocalTime tza t) else YearFromTime (LocalTime tza t))
       (MonthFromTime (LocalTime tza t)) (DateFromTime (LocalTime tza t))"

definition valid_day :: "LocalTZA \<Rightarrow> int \<Rightarrow> bool" where
  "valid_day tza k \<longleftrightarrow> \<bar>UTC tza (k * msPerDay)\<bar> \<le> 8640000000000000"

text \<open>
  What the theorems ask of the host's time zone, each time of the local midnights that
  the program compares and of no other time. \<open>offset_at k\<close> is the offset used for the
  local midnight of day \<open>k\<close>.
  \<^item> \<open>offsets_compatible j k\<close>: the offsets at the midnights of days \<open>j\<close> and \<open>k\<close> differ by
    less than the days are apart (and by less than a day on one day). Then the two
    midnights are instants in the order of their days.
  \<^item> \<open>offsets_within h j k\<close>: the two offsets differ by less than \<open>h\<close> milliseconds.
  \<^item> \<open>offsets_agree_within h j k\<close>: the two offsets differ by less than \<open>h\<close> milliseconds
    up to a whole number of days, as they also do across a change of the zone from one
    side of the date line to the other.
  \<^item> \<open>reads_back k\<close>: the instant chosen for the local midnight of day \<open>k\<close> reads back,
    in local time, as a time of day \<open>k\<close>.
  \<open>table_days\<close> are the days of the table entries, \<open>fallback_day\<close> is 2037-01-28.
\<close>

definition offset_at :: "LocalTZA \<Rightarrow> int \<Rightarrow> int" where
  "offset_at tza k = tza (k * msPerDay) False"

definition offsets_compatible :: "LocalTZA \<Rightarrow> int \<Rightarrow> int \<Rightarrow> bool" where
  "offsets_compatible tza j k \<longleftrightarrow>
     \<bar>offset_at tza j - offset_at tza k\<bar> < max 1 \<bar>j - k\<bar> * msPerDay"

definition offsets_within :: "int \<Rightarrow> LocalTZA \<Rightarrow> int \<Rightarrow> int \<Rightarrow> bool" where
  "offsets_within h tza j k \<longleftrightarrow> \<bar>offset_at tza j - offset_at tza k\<bar> < h"

definition offsets_agree_within :: "int \<Rightarrow> LocalTZA \<Rightarrow> int \<Rightarrow> int \<Rightarrow> bool" where
  "offsets_agree_within h tza j k \<longleftrightarrow>
     (let r = (offset_at tza j - offset_at tza k) mod msPerDay
      in r < h \<or> msPerDay - r < h)"

definition reads_back :: "LocalTZA \<Rightarrow> int \<Rightarrow> bool" where
  "reads_back tza k \<longleftrightarrow> Day (LocalTime tza (UTC tza (k * msPerDay))) = k"

definition table_days :: "int list" where
  "table_days = map HolidayDate_day CNY_DATES"

definition fallback_day :: int where
  "fallback_day = MakeDay 2037 0 28"

definition offsets_fit :: "LocalTZA \<Rightarrow> int \<Rightarrow> int list \<Rightarrow> bool" where
  "offsets_fit tza k days \<longleftrightarrow> (\<forall>j \<in> set days. offsets_compatible tza k j)"

definition midnights_valid :: "LocalTZA \<Rightarrow> int list \<Rightarrow> bool" where
  "midnights_valid tza days \<longleftrightarrow> (\<forall>j \<in> set days. valid_day tza j)"

definition midnights_read_back :: "LocalTZA \<Rightarrow> int list \<Rightarrow> bool" where
  "midnights_read_back tza days \<longleftrightarrow> (\<forall>j \<in> set days. reads_back tza j)"

text \<open>
  Zones to run the functions in: UTC; a zone five hours west of Greenwich with no
  daylight saving; the same with daylight saving of one hour from 2025-03-09 02:00 to
  2025-11-02 02:00 local time (the rules of New York for 2025); and a zone that is ten
  hours behind Greenwich until the end of 2011-12-29 local time and fourteen hours
  ahead from 2011-12-31 00:00 on (the rules of Apia for the end of 2011, when Samoa left
  out 2011-12-30).
\<close>

definition zone_UTC :: LocalTZA where
  "zone_UTC t isUTC = 0"

definition zone_west5 :: LocalTZA where
  "zone_west5 t isUTC = - 18000000"

definition zone_NY2025 :: LocalTZA where
  "zone_NY2025 t isUTC =
     (if isUTC then (if 1741503600000 \<le> t \<and> t < 1762063200000 then - 14400000 else - 18000000)
      else (if 1741489200000 \<le> t \<and> t < 1762048800000 then - 14400000 else - 18000000))"

definition zone_Apia2011 :: LocalTZA where
  "zone_Apia2011 t isUTC =
     (if isUTC then (if t < 1325239200000 then - 36000000 else 50400000)
      else (if t < 1325289600000 then - 36000000 else 50400000))"

section \<open>Platform detection (isMobile)\<close>

text \<open>
  \<^verbatim>\<open>/Android|iPhone|iPad|iPod|webOS|BlackBerry|IEMobile|Opera Mini/i.test(navigator.userAgent)\<close>.
  The pattern is a disjunction of literals. \<^verbatim>\<open>test\<close> tries every start position of
  the input from the left, and at each the alternatives in order; under the flag \<^verbatim>\<open>i\<close> two
  characters match when their canonical forms (the upper-case forms) are equal. The client
  string is the argument \<open>userAgent\<close>. On the characters of the pattern \<open>Canonicalize\<close> is
  the standard's; a character outside ASCII never has an ASCII canonical form there, so
  it matches no character of the pattern, as here.
\<close>

definition Canonicalize :: "char \<Rightarrow> char" where
  "Canonicalize ch =
     (let n = (of_char ch :: nat) in if 97 \<le> n \<and> n \<le> 122 then char_of (n - 32) else ch)"

fun match_literal :: "string \<Rightarrow> string \<Rightarrow> bool" where
  "match_literal [] input = True"
| "match_literal (p # ps) [] = False"
| "match_literal (p # ps) (ch # rest) =
     (Canonicalize p = Canonicalize ch \<and> match_literal ps rest)"

fun RegExp_test :: "string list \<Rightarrow> string \<Rightarrow> bool" where
  "RegExp_test alternatives [] = list_ex (\<lambda>p. match_literal p []) alternatives"
| "RegExp_test alternatives (ch # rest) =
     (list_ex (\<lambda>p. match_literal p (ch # rest)) alternatives \<or> RegExp_test alternatives rest)"

definition mobile_alternatives :: "string list" where
  "mobile_alternatives =
     [''Android'', ''iPhone'', ''iPad'', ''iPod'', ''webOS'', ''BlackBerry'', ''IEMobile'',
      ''Opera Mini'']"

definition isMobile :: "string \<Rightarrow> bool" where
  "isMobile userAgent = RegExp_test mobile_alternatives userAgent"

text \<open>
  The specification's "case-insensitive substring": \<open>p\<close> occurs in \<open>s\<close> as a contiguous
  run of characters, up to the case of letters.
\<close>

definition occurs_ignoring_case :: "string \<Rightarrow> string \<Rightarrow> bool" where
  "occurs_ignoring_case p s \<longleftrightarrow> sublist (map Canonicalize p) (map Canonicalize s)"

section \<open>Capture and export (captureCard, copyToClipboard, downloadImage)\<close>

text \<open>
  The handlers are asynchronous functions that call into the browser. What the browser
  answers is the record \<open>browser\<close>: each operation that can fail answers with the
  exception it throws (or rejects with) on the left, or with its value on the right.
  A computation is the pair of its outcome (an exception that leaves it, or its value)
  and the effects it had, in order. The calls that build and click the download anchor
  and the two calls of \<^verbatim>\<open>showToast\<close> (a state setter and \<^verbatim>\<open>setTimeout\<close>) do not throw. The
  messages of the notifications are the four literals of the source, named here by
  their meaning.
\<close>

datatype exn = RenderError | SecurityError | NotAllowedError

datatype element = Element nat
datatype canvas = Canvas nat
datatype blob = Blob nat

datatype message = Copied | CopyFailed | Saved | SaveFailed

datatype effect =
    SetToast "message option"
  | SetTimeout nat
  | ClipboardWrite blob
  | Download string int
  | UnhandledRejection exn

record browser =
  cardRef_current :: "element option"
  html2canvas :: "element \<Rightarrow> exn + canvas"
  toBlob :: "canvas \<Rightarrow> exn + blob option"
  toDataURL :: "canvas \<Rightarrow> exn + string"
  clipboard_write :: "blob \<Rightarrow> exn + unit"

type_synonym 'a comp = "(exn + 'a) \<times> effect list"

definition ret :: "'a \<Rightarrow> 'a comp" where
  "ret x = (Inr x, [])"

definition throw :: "exn \<Rightarrow> 'a comp" where
  "throw e = (Inl e, [])"

definition emit :: "effect \<Rightarrow> unit comp" where
  "emit ev = (Inr (), [ev])"

definition answer :: "exn + 'a \<Rightarrow> 'a comp" where
  "answer r = (r, [])"

definition bind :: "'a comp \<Rightarrow> ('a \<Rightarrow> 'b comp) \<Rightarrow> 'b comp" where
  "bind m f =
     (case m of
        (Inl e, fx) \<Rightarrow> (Inl e, fx)
      | (Inr x, fx) \<Rightarrow> (case f x of (r, fx') \<Rightarrow> (r, fx @ fx')))"

text \<open>\<^verbatim>\<open>try { m } catch { h }\<close>: the handler runs when an exception leaves \<open>m\<close>.\<close>

definition try_catch :: "'a comp \<Rightarrow> 'a comp \<Rightarrow> 'a comp" where
  "try_catch m h =
     (case m of
        (Inl e, fx) \<Rightarrow> (case h of (r, fx') \<Rightarrow> (r, fx @ fx'))
      | (Inr x, fx) \<Rightarrow> (Inr x, fx))"

text \<open>
  A callback that nobody awaits: its effects happen, and an exception that leaves it
  reaches no caller; the browser reports an unhandled rejection.
\<close>

definition detached :: "unit comp \<Rightarrow> unit comp" where
  "detached m =
     (case m of
        (Inl e, fx) \<Rightarrow> (Inr (), fx @ [UnhandledRejection e])
      | (Inr x, fx) \<Rightarrow> (Inr (), fx))"

definition showToast :: "message \<Rightarrow> unit comp" where
  "showToast msg = bind (emit (SetToast (Some msg))) (\<lambda>_. emit (SetTimeout 2000))"

definition captureCard :: "browser \<Rightarrow> canvas option comp" where
  "captureCard b =
     (case cardRef_current b of
        None \<Rightarrow> ret None
      | Some node \<Rightarrow> bind (answer (html2canvas b node)) (\<lambda>c. ret (Some c)))"

definition canvas_toBlob :: "browser \<Rightarrow> canvas \<Rightarrow> (blob option \<Rightarrow> unit comp) \<Rightarrow> unit comp" where
  "canvas_toBlob b c callback =
     (case toBlob b c of
        Inl e \<Rightarrow> throw e
      | Inr blob \<Rightarrow> detached (callback blob))"

definition navigator_clipboard_write :: "browser \<Rightarrow> blob \<Rightarrow> unit comp" where
  "navigator_clipboard_write b blob =
     bind (answer (clipboard_write b blob)) (\<lambda>_. emit (ClipboardWrite blob))"

definition copyToClipboard :: "browser \<Rightarrow> unit comp" where
  "copyToClipboard b =
     try_catch
       (bind (captureCard b) (\<lambda>canvas.
          case canvas of
            None \<Rightarrow> ret ()
          | Some c \<Rightarrow>
              canvas_toBlob b c (\<lambda>blob.
                case blob of
                  None \<Rightarrow> ret ()
                | Some bl \<Rightarrow>
                    try_catch
                      (bind (navigator_clipboard_write b bl) (\<lambda>_. showToast Copied))
                      (showToast CopyFailed))))
       (showToast CopyFailed)"

definition downloadImage :: "browser \<Rightarrow> int \<Rightarrow> unit comp" where
  "downloadImage b days =
     try_catch
       (bind (captureCard b) (\<lambda>canvas.
          case canvas of
            None \<Rightarrow> ret ()
          | Some c \<Rightarrow>
              bind (answer (toDataURL b c)) (\<lambda>url.
              bind (emit (Download url days)) (\<lambda>_.
              showToast Saved))))
       (showToast SaveFailed)"

text \<open>
  A browser in which every operation succeeds; the theorems below are run on it and on
  variations of it.
\<close>

definition browser_ok :: browser where
  "browser_ok =
     \<lparr>cardRef_current = Some (Element 0),
      html2canvas = (\<lambda>_. Inr (Canvas 0)),
      toBlob = (\<lambda>_. Inr (Some (Blob 0))),
      toDataURL = (\<lambda>_. Inr ''data:image/png;base64,''),
      clipboard_write = (\<lambda>_. Inr ())\<rparr>"

section \<open>Properties of the calendar\<close>

lemma msPerDay_pos: "0 < msPerDay" by (simp add: msPerDay_def)

lemma div_bounds:
  fixes x k :: int
  assumes "0 < k"
  shows "k * (x div k) \<le> x" "x < k * (x div k) + k"
proof -
  have "x = k * (x div k) + x mod k" by simp
  moreover have "0 \<le> x mod k" "x mod k < k" using assms by simp_all
  ultimately show "k * (x div k) \<le> x" "x < k * (x div k) + k" by linarith+
qed

lemma DayFromYear_upper: "400 * DayFromYear y \<le> 146097 * y - 287810501"
proof -
  define q1 q2 q3 where "q1 = (y - 1969) div 4" and "q2 = (y - 1901) div 100"
    and "q3 = (y - 1601) div 400"
  have a: "4 * q1 \<le> y - 1969" unfolding q1_def by (rule div_bounds) simp
  have b: "y - 1901 < 100 * q2 + 100" unfolding q2_def by (rule div_bounds) simp
  have c: "400 * q3 \<le> y - 1601" unfolding q3_def by (rule div_bounds) simp
  have "DayFromYear y = 365 * y - 719050 + q1 - q2 + q3"
    by (simp add: DayFromYear_def q1_def q2_def q3_def)
  then show ?thesis using a b c by linarith
qed

lemma DayFromYear_lower: "146097 * y - 287811596 \<le> 400 * DayFromYear y"
proof -
  define q1 q2 q3 where "q1 = (y - 1969) div 4" and "q2 = (y - 1901) div 100"
    and "q3 = (y - 1601) div 400"
  have a: "y - 1969 < 4 * q1 + 4" unfolding q1_def by (rule div_bounds) simp
  have b: "100 * q2 \<le> y - 1901" unfolding q2_def by (rule div_bounds) simp
  have c: "y - 1601 < 400 * q3 + 400" unfolding q3_def by (rule div_bounds) simp
  have "DayFromYear y = 365 * y - 719050 + q1 - q2 + q3"
    by (simp add: DayFromYear_def q1_def q2_def q3_def)
  then show ?thesis using a b c by linarith
qed

lemma YearFromTime_bounds:
  "DayFromYear (YearFromTime t) \<le> Day t" "Day t < DayFromYear (YearFromTime t + 1)"
proof -
  define d where "d = Day t"
  define q where "q = (400 * d) div 146097"
  define y where "y = 1970 + q"
  have e1: "146097 * q \<le> 400 * d" unfolding q_def by (rule div_bounds) simp
  have e2: "400 * d < 146097 * q + 146097" unfolding q_def by (rule div_bounds) simp
  have yq: "y = 1970 + q" by (rule y_def)
  have u: "400 * DayFromYear (y - 1) \<le> 146097 * y - 287956598"
    using DayFromYear_upper[of "y - 1"] by (simp add: algebra_simps)
  have l: "146097 * y - 287519402 \<le> 400 * DayFromYear (y + 2)"
    using DayFromYear_lower[of "y + 2"] by (simp add: algebra_simps)
  have lo: "DayFromYear (y - 1) \<le> d"
    using u e1 yq by linarith
  have hi: "d < DayFromYear (y + 2)"
    using l e2 yq by linarith
  have yft: "YearFromTime t = (if d < DayFromYear y then y - 1
         else if DayFromYear (y + 1) \<le> d then y + 1 else y)"
    by (simp add: YearFromTime_def Let_def d_def y_def q_def)
  show "DayFromYear (YearFromTime t) \<le> Day t"
    using lo by (simp add: yft d_def[symmetric])
  show "Day t < DayFromYear (YearFromTime t + 1)"
    using hi by (simp add: yft d_def[symmetric] add.commute)
qed

lemma div_succ:
  fixes x k :: int
  assumes "0 < k"
  shows "(x + 1) div k = x div k + (if (x + 1) mod k = 0 then 1 else 0)"
proof (cases "x mod k = k - 1")
  case True
  have "x = k * (x div k) + x mod k" by simp
  then have e: "x + 1 = k * (x div k + 1) + 0" using True by (simp add: algebra_simps)
  have "(x + 1) div k = x div k + 1"
    using e assms by (intro int_div_pos_eq[where r = 0]) simp_all
  moreover have "(x + 1) mod k = 0"
    using e assms by (intro int_mod_pos_eq[where q = "x div k + 1"]) simp_all
  ultimately show ?thesis by simp
next
  case False
  have r: "0 \<le> x mod k" "x mod k < k" using assms by simp_all
  have e: "x + 1 = k * (x div k) + (x mod k + 1)" by simp
  have b: "0 \<le> x mod k + 1" "x mod k + 1 < k" using r False by linarith+
  have "(x + 1) div k = x div k"
    using e b by (intro int_div_pos_eq[where r = "x mod k + 1"]) simp_all
  moreover have "(x + 1) mod k = x mod k + 1"
    using e b by (intro int_mod_pos_eq[where q = "x div k"]) simp_all
  ultimately show ?thesis using r by simp
qed

lemma mod_shift:
  fixes y k c :: int
  shows "(y - k * c) mod k = y mod k"
proof -
  have "(y - k * c) mod k = (y + k * (- c)) mod k" by simp
  also have "\<dots> = y mod k" by (rule mod_mult_self2)
  finally show ?thesis .
qed

lemma DayFromYear_step: "DayFromYear (y + 1) = DayFromYear y + DaysInYear y"
proof -
  have a: "(y + 1 - 1969) div 4 = (y - 1969) div 4 + (if y mod 4 = 0 then 1 else 0)"
    using div_succ[of 4 "y - 1969"] mod_shift[of y 4 492] by (simp add: algebra_simps)
  have b: "(y + 1 - 1901) div 100 = (y - 1901) div 100 + (if y mod 100 = 0 then 1 else 0)"
    using div_succ[of 100 "y - 1901"] mod_shift[of y 100 19] by (simp add: algebra_simps)
  have c: "(y + 1 - 1601) div 400 = (y - 1601) div 400 + (if y mod 400 = 0 then 1 else 0)"
    using div_succ[of 400 "y - 1601"] mod_shift[of y 400 4] by (simp add: algebra_simps)
  have d1: "y mod 400 = 0 \<Longrightarrow> y mod 100 = 0"
    using mod_mod_cancel[of 100 400 y] by simp
  have d2: "y mod 100 = 0 \<Longrightarrow> y mod 4 = 0"
    using mod_mod_cancel[of 4 100 y] by simp
  show ?thesis
    unfolding DayFromYear_def DaysInYear_def a b c using d1 d2 by auto
qed

lemma DayFromYear_strict_mono: "y < y' \<Longrightarrow> DayFromYear y < DayFromYear y'"
  using DayFromYear_upper[of y] DayFromYear_lower[of y'] by linarith

lemma DayFromYear_mono: "y \<le> y' \<Longrightarrow> DayFromYear y \<le> DayFromYear y'"
  using DayFromYear_strict_mono[of y y'] by (cases "y = y'") simp_all

lemma YearFromTime_unique:
  assumes "DayFromYear y \<le> Day t" "Day t < DayFromYear (y + 1)"
  shows "YearFromTime t = y"
proof (rule ccontr)
  assume ne: "YearFromTime t \<noteq> y"
  show False
  proof (cases "YearFromTime t < y")
    case True
    then have "DayFromYear (YearFromTime t + 1) \<le> DayFromYear y"
      by (intro DayFromYear_mono) simp
    with YearFromTime_bounds(2)[of t] assms(1) show False by linarith
  next
    case False
    with ne have "DayFromYear (y + 1) \<le> DayFromYear (YearFromTime t)"
      by (intro DayFromYear_mono) simp
    with YearFromTime_bounds(1)[of t] assms(2) show False by linarith
  qed
qed

lemma le_div_iff:
  fixes j x k :: int
  assumes "0 < k"
  shows "j \<le> x div k \<longleftrightarrow> k * j \<le> x"
proof
  assume "j \<le> x div k"
  then have "k * j \<le> k * (x div k)" using assms by (simp add: mult_left_mono)
  with div_bounds(1)[OF assms, of x] show "k * j \<le> x" by linarith
next
  assume "k * j \<le> x"
  with div_bounds(2)[OF assms, of x] have "k * j < k * (x div k + 1)"
    by (simp add: algebra_simps)
  then have "j < x div k + 1" using assms by (simp add: mult_less_cancel_left_pos)
  then show "j \<le> x div k" by simp
qed

lemma div_less_iff:
  fixes j x k :: int
  assumes "0 < k"
  shows "x div k < j \<longleftrightarrow> x < k * j"
  using le_div_iff[OF assms, of j x] by linarith

lemma TimeFromYear_le_iff: "TimeFromYear y \<le> t \<longleftrightarrow> DayFromYear y \<le> Day t"
  using le_div_iff[OF msPerDay_pos, of "DayFromYear y" t]
  by (simp add: TimeFromYear_def Day_def)

lemma YearFromTime_largest:
  "TimeFromYear (YearFromTime t) \<le> t \<and> (\<forall>y. TimeFromYear y \<le> t \<longrightarrow> y \<le> YearFromTime t)"
proof (intro conjI allI impI)
  show "TimeFromYear (YearFromTime t) \<le> t"
    by (simp add: TimeFromYear_le_iff YearFromTime_bounds(1))
next
  fix y assume "TimeFromYear y \<le> t"
  then have le: "DayFromYear y \<le> Day t" by (simp add: TimeFromYear_le_iff)
  show "y \<le> YearFromTime t"
  proof (rule ccontr)
    assume "\<not> y \<le> YearFromTime t"
    then have "DayFromYear (YearFromTime t + 1) \<le> DayFromYear y"
      by (intro DayFromYear_mono) simp
    with YearFromTime_bounds(2)[of t] le show False by linarith
  qed
qed

lemma DayWithinYear_bounds:
  "0 \<le> DayWithinYear t" "DayWithinYear t < DaysInYear (YearFromTime t)"
  using YearFromTime_bounds[of t] DayFromYear_step[of "YearFromTime t"]
  by (simp_all add: DayWithinYear_def)

lemma DayWithinYear_leap: "DayWithinYear t < 365 + InLeapYear t"
  using DayWithinYear_bounds(2)[of t]
  by (simp add: InLeapYear_def DaysInYear_def split: if_splits)

lemma InLeapYear_cases: "InLeapYear t = 0 \<or> InLeapYear t = 1"
  by (simp add: InLeapYear_def)

lemma MonthFromTime_range: "0 \<le> MonthFromTime t" "MonthFromTime t \<le> 11"
  by (simp_all add: MonthFromTime_def Let_def)

lemma DateFromTime_range: "1 \<le> DateFromTime t" "DateFromTime t \<le> 31"
  using DayWithinYear_bounds(1)[of t] DayWithinYear_leap[of t] InLeapYear_cases[of t]
  by (auto simp add: DateFromTime_def MonthFromTime_def Let_def split: if_splits)

lemma DayFromMonth_MonthFromTime:
  "DayFromMonth (MonthFromTime t) (InLeapYear t) + DateFromTime t - 1 = DayWithinYear t"
  by (simp add: DateFromTime_def MonthFromTime_def DayFromMonth_def Let_def)

lemma MakeDay_of_time:
  "MakeDay (YearFromTime t) (MonthFromTime t) (DateFromTime t) = Day t"
proof -
  have m: "MonthFromTime t div 12 = 0" "MonthFromTime t mod 12 = MonthFromTime t"
    using MonthFromTime_range[of t] by simp_all
  have "MakeDay (YearFromTime t) (MonthFromTime t) (DateFromTime t)
      = DayFromYear (YearFromTime t) +
        (DayFromMonth (MonthFromTime t) (InLeapYear t) + DateFromTime t - 1)"
    by (simp add: MakeDay_def Let_def m InLeapYear_def)
  also have "\<dots> = Day t"
    by (simp only: DayFromMonth_MonthFromTime) (simp add: DayWithinYear_def)
  finally show ?thesis .
qed

lemma Day_cong_YearFromTime: "Day t = Day t' \<Longrightarrow> YearFromTime t = YearFromTime t'"
  by (simp add: YearFromTime_def)

lemma Day_cong_MonthFromTime: "Day t = Day t' \<Longrightarrow> MonthFromTime t = MonthFromTime t'"
  by (simp add: MonthFromTime_def DayWithinYear_def InLeapYear_def YearFromTime_def)

lemma Day_cong_DateFromTime: "Day t = Day t' \<Longrightarrow> DateFromTime t = DateFromTime t'"
  by (simp add: DateFromTime_def MonthFromTime_def DayWithinYear_def InLeapYear_def
      YearFromTime_def)

lemma Day_of_midnight: "Day (k * msPerDay) = k"
  using msPerDay_pos by (simp add: Day_def)

lemma MakeDate_midnight: "MakeDate k (MakeTime 0 0 0 0) = k * msPerDay"
  by (simp add: MakeDate_def MakeTime_def)

text \<open>
  \<open>MakeDay\<close> is the day the standard asks for: the first of month \<open>mn\<close> of year \<open>ym\<close> is
  a day of that year and month, with date 1.
\<close>

lemma MakeDay_first_of_month:
  fixes ym mn :: int
  assumes "0 \<le> mn" "mn \<le> 11"
  defines "t \<equiv> MakeDay ym mn 1 * msPerDay"
  shows "YearFromTime t = ym \<and> MonthFromTime t = mn \<and> DateFromTime t = 1"
proof -
  define l :: int where "l = (if DaysInYear ym = 366 then 1 else 0)"
  have m: "mn div 12 = 0" "mn mod 12 = mn" using assms by simp_all
  have d: "Day t = DayFromYear ym + DayFromMonth mn l"
    by (simp add: t_def Day_of_midnight MakeDay_def m l_def)
  have l01: "l = 0 \<or> l = 1" by (simp add: l_def)
  have b: "0 \<le> DayFromMonth mn l" "DayFromMonth mn l < 365"
    using assms(1) l01 by (auto simp add: DayFromMonth_def)
  have "DayFromYear (ym + 1) = DayFromYear ym + DaysInYear ym" by (rule DayFromYear_step)
  moreover have "365 \<le> DaysInYear ym" by (simp add: DaysInYear_def)
  ultimately have y: "YearFromTime t = ym"
    using b by (intro YearFromTime_unique) (simp_all add: d)
  have w: "DayWithinYear t = DayFromMonth mn l" by (simp add: DayWithinYear_def y d)
  have i: "InLeapYear t = l" by (simp add: InLeapYear_def y l_def)
  have lo: "mn = 0 \<or> mn = 1 \<or> mn = 2 \<or> mn = 3 \<or> mn = 4 \<or> mn = 5" if "mn \<le> 5"
    using that assms(1) by linarith
  have hi: "mn = 6 \<or> mn = 7 \<or> mn = 8 \<or> mn = 9 \<or> mn = 10 \<or> mn = 11" if "6 \<le> mn"
    using that assms(2) by linarith
  have "MonthFromTime t = mn \<and> DateFromTime t = 1"
  proof (cases "mn \<le> 5")
    case True
    from lo[OF this] l01 show ?thesis
      by (auto simp add: MonthFromTime_def DateFromTime_def w i DayFromMonth_def)
  next
    case False
    then have "6 \<le> mn" by simp
    from hi[OF this] l01 show ?thesis
      by (auto simp add: MonthFromTime_def DateFromTime_def w i DayFromMonth_def)
  qed
  with y show ?thesis by simp
qed

lemma Math_round_div:
  assumes "0 < d"
  shows "Math_round (of_int n / of_int d) = (2 * n + d) div (2 * d)"
proof -
  have "(of_int n / of_int d + 1 / 2 :: rat) = of_int (2 * n + d) / of_int (2 * d)"
    using assms by (simp add: field_simps)
  then show ?thesis
    unfolding Math_round_def by (simp only: floor_divide_of_int_eq)
qed

lemma Math_round_near:
  assumes "0 < d" "- d \<le> 2 * r" "2 * r < d"
  shows "Math_round (of_int (k * d + r) / of_int d) = k"
proof -
  have "(2 * (k * d + r) + d) div (2 * d) = k"
    using assms by (intro int_div_pos_eq[where r = "2 * r + d"]) (simp_all add: algebra_simps)
  then show ?thesis by (simp only: Math_round_div[OF assms(1)])
qed

lemma Math_round_zero: "Math_round 0 = 0"
  using Math_round_div[of 1 0] by simp

lemma Math_round_nonneg:
  assumes "0 < d" "0 \<le> n"
  shows "0 \<le> Math_round (of_int n / of_int d)"
  using assms by (simp add: Math_round_div pos_imp_zdiv_nonneg_iff)

lemma DayFromYear_values:
  "DayFromYear 0 = - 719528" "DayFromYear 100 = - 683003" "DayFromYear 1900 = - 25567"
  "DayFromYear 1999 = 10592"
  by (simp_all add: DayFromYear_def)

lemma YearFromTime_le_iff: "YearFromTime t \<le> y \<longleftrightarrow> Day t < DayFromYear (y + 1)"
proof
  assume "YearFromTime t \<le> y"
  then have "DayFromYear (YearFromTime t + 1) \<le> DayFromYear (y + 1)"
    by (intro DayFromYear_mono) simp
  with YearFromTime_bounds(2)[of t] show "Day t < DayFromYear (y + 1)" by linarith
next
  assume a: "Day t < DayFromYear (y + 1)"
  show "YearFromTime t \<le> y"
  proof (rule ccontr)
    assume "\<not> YearFromTime t \<le> y"
    then have "DayFromYear (y + 1) \<le> DayFromYear (YearFromTime t)"
      by (intro DayFromYear_mono) simp
    with YearFromTime_bounds(1)[of t] a show False by linarith
  qed
qed

lemma YearFromTime_ge_iff: "y \<le> YearFromTime t \<longleftrightarrow> DayFromYear y \<le> Day t"
  using YearFromTime_le_iff[of t "y - 1"] by auto

lemma short_year_iff:
  "0 \<le> YearFromTime t \<and> YearFromTime t \<le> 99 \<longleftrightarrow> - 719528 \<le> Day t \<and> Day t < - 683003"
  using YearFromTime_le_iff[of t 99] YearFromTime_ge_iff[of 0 t]
  by (simp add: DayFromYear_values)

lemma DayFromMonth_bounds:
  "0 \<le> m \<Longrightarrow> 0 \<le> l \<Longrightarrow> l \<le> 1 \<Longrightarrow> 0 \<le> DayFromMonth m l \<and> DayFromMonth m l \<le> 335"
  by (simp add: DayFromMonth_def)

lemma MakeDay_bounds:
  assumes "0 \<le> m" "m \<le> 11" "1 \<le> d" "d \<le> 31"
  shows "DayFromYear y \<le> MakeDay y m d" "MakeDay y m d \<le> DayFromYear y + 365"
proof -
  have m: "m div 12 = 0" "m mod 12 = m" using assms by simp_all
  define l :: int where "l = (if DaysInYear y = 366 then 1 else 0)"
  have "0 \<le> l" "l \<le> 1" by (simp_all add: l_def)
  then have b: "0 \<le> DayFromMonth m l \<and> DayFromMonth m l \<le> 335"
    using assms(1) by (intro DayFromMonth_bounds)
  have e: "MakeDay y m d = DayFromYear y + DayFromMonth m l + d - 1"
    by (simp add: MakeDay_def m l_def)
  show "DayFromYear y \<le> MakeDay y m d" "MakeDay y m d \<le> DayFromYear y + 365"
    using b assms(3,4) unfolding e by linarith+
qed

lemma MakeDay_fallback: "MakeDay 2037 0 28 = 24499"
  by (simp add: MakeDay_def DayFromYear_def DaysInYear_def DayFromMonth_def)

lemma date_le_antisym: "date_le p q \<Longrightarrow> date_le q p \<Longrightarrow> p = q"
  by (auto simp add: date_le_def split: prod.splits)

lemma MakeDay_early:
  assumes "(m = 1 \<and> 1 \<le> d \<and> d \<le> 31) \<or> (m = 2 \<and> 1 \<le> d \<and> d \<le> 28)"
  shows "MakeDay y (m - 1) d = DayFromYear y + (if m = 1 then d - 1 else d + 30)"
  using assms by (auto simp add: MakeDay_def DayFromMonth_def)

lemma DayWithinYear_early:
  assumes "(m = 1 \<and> 1 \<le> d \<and> d \<le> 31) \<or> (m = 2 \<and> 1 \<le> d \<and> d \<le> 28)"
  shows "DayWithinYear t \<le> (if m = 1 then d - 1 else d + 30) \<longleftrightarrow>
           MonthFromTime t + 1 < m \<or> (MonthFromTime t + 1 = m \<and> DateFromTime t \<le> d)"
  using assms DayWithinYear_bounds(1)[of t] InLeapYear_cases[of t]
  by (auto simp add: MonthFromTime_def DateFromTime_def Let_def)

section \<open>Properties of the date arithmetic\<close>

lemma local_midnight_valid:
  "valid_day tza k \<Longrightarrow> local_midnight tza k = Date (Some (UTC tza (k * msPerDay)))"
  by (simp add: valid_day_def local_midnight_def TimeClip_def)

lemma local_midnight_invalid:
  "\<not> valid_day tza k \<Longrightarrow> local_midnight tza k = Date None"
  by (simp add: valid_day_def local_midnight_def TimeClip_def)

lemma getTime_local_midnight:
  "getTime (local_midnight tza k) = (if valid_day tza k then Some (UTC tza (k * msPerDay)) else None)"
  by (simp add: local_midnight_valid local_midnight_invalid)

lemma new_Date_local_midnight:
  "new_Date tza (Some y) (Some m) (Some d) =
     local_midnight tza (MakeDay (if 0 \<le> y \<and> y \<le> 99 then 1900 + y else y) m d)"
  by (simp add: new_Date_def local_midnight_def MakeDate_midnight Let_def)

lemma new_Date_plain:
  "y < 0 \<or> 99 < y \<Longrightarrow>
     new_Date tza (Some y) (Some m) (Some d) = local_midnight tza (MakeDay y m d)"
  by (auto simp add: new_Date_local_midnight)

lemma new_Date_of_getters:
  "new_Date tza (getFullYear tza (Date (Some t))) (getMonth tza (Date (Some t)))
       (getDate tza (Date (Some t)))
     = local_midnight tza (truncated_day tza t)"
  by (simp add: new_Date_local_midnight truncated_day_def getFullYear_def getMonth_def
      getDate_def)

lemma truncated_day_plain:
  assumes "YearFromTime (LocalTime tza t) < 0 \<or> 99 < YearFromTime (LocalTime tza t)"
  shows "truncated_day tza t = calendar_day tza t"
  using assms by (auto simp add: truncated_day_def calendar_day_def MakeDay_of_time)

lemma calendar_day_cong_truncated:
  assumes "calendar_day tza ta = calendar_day tza tb"
  shows "truncated_day tza ta = truncated_day tza tb"
proof -
  from assms have d: "Day (LocalTime tza ta) = Day (LocalTime tza tb)"
    by (simp add: calendar_day_def)
  show ?thesis
    unfolding truncated_day_def
    by (simp only: Day_cong_YearFromTime[OF d] Day_cong_MonthFromTime[OF d]
        Day_cong_DateFromTime[OF d])
qed

lemma daysBetween_truncated:
  "daysBetween tza (Date (Some ta)) (Date (Some tb)) =
     (if valid_day tza (truncated_day tza ta) \<and> valid_day tza (truncated_day tza tb)
      then Some (Math_round (of_int (UTC tza (truncated_day tza tb * msPerDay)
                       - UTC tza (truncated_day tza ta * msPerDay)) / of_int msPerDay))
      else None)"
  by (simp add: daysBetween_def new_Date_of_getters getTime_local_midnight Let_def)

text \<open>
  The rounded quotient, for two midnights \<open>k\<close> days apart whose offsets differ by \<open>g\<close>.
\<close>

lemma Math_round_shift:
  "Math_round (of_int (k * msPerDay + g) / of_int msPerDay)
     = k + (2 * g + msPerDay) div (2 * msPerDay)"
proof -
  have "(2 * (k * msPerDay + g) + msPerDay) div (2 * msPerDay)
      = (k * (2 * msPerDay) + (2 * g + msPerDay)) div (2 * msPerDay)"
    by (simp add: algebra_simps)
  also have "\<dots> = k + (2 * g + msPerDay) div (2 * msPerDay)"
    using msPerDay_pos by simp
  finally show ?thesis by (simp only: Math_round_div[OF msPerDay_pos])
qed

lemma UTC_difference:
  "UTC tza (kb * msPerDay) - UTC tza (ka * msPerDay)
     = (kb - ka) * msPerDay + (offset_at tza ka - offset_at tza kb)"
  by (simp add: UTC_def offset_at_def algebra_simps)

lemma daysBetween_days:
  assumes "valid_day tza (truncated_day tza ta)" "valid_day tza (truncated_day tza tb)"
  shows "daysBetween tza (Date (Some ta)) (Date (Some tb)) =
     Some (truncated_day tza tb - truncated_day tza ta
           + (2 * (offset_at tza (truncated_day tza ta) - offset_at tza (truncated_day tza tb))
                + msPerDay) div (2 * msPerDay))"
  using assms by (simp only: daysBetween_truncated UTC_difference Math_round_shift) simp

lemma round_part_zero:
  assumes "\<bar>g\<bar> < msPerDay div 2"
  shows "(2 * g + msPerDay) div (2 * msPerDay) = 0"
proof -
  from assms have "0 \<le> 2 * g + 86400000" "2 * g + 86400000 < 172800000"
    by (simp_all add: msPerDay_def)
  then show ?thesis by (simp add: msPerDay_def)
qed

lemma round_part_near:
  fixes n e :: int
  assumes "- 86400000 \<le> 2 * e" "2 * e < 86400000"
  shows "(2 * (n * 86400000 + e) + 86400000) div 172800000 = n"
  using assms by (intro int_div_pos_eq[where r = "2 * e + 86400000"]) simp_all

text \<open>
  An offset difference \<open>g\<close> that is within \<open>h\<close> of a whole number of days, \<open>h\<close> at most
  half a day: the whole number \<open>n\<close> and the rest \<open>e\<close>.
\<close>

lemma agree_split:
  fixes g h :: int
  assumes "g mod 86400000 < h \<or> 86400000 - g mod 86400000 < h" "h \<le> 43200000"
  obtains n e where "g = n * 86400000 + e" "\<bar>e\<bar> < h"
proof (cases "g mod 86400000 < h")
  case True
  have "g = (g div 86400000) * 86400000 + g mod 86400000" by simp
  moreover have "\<bar>g mod 86400000\<bar> < h" using True by simp
  ultimately show ?thesis by (rule that)
next
  case False
  with assms(1) have r: "86400000 - g mod 86400000 < h" by simp
  have "g = (g div 86400000) * 86400000 + g mod 86400000" by simp
  then have "g = (g div 86400000 + 1) * 86400000 + (g mod 86400000 - 86400000)"
    by (simp add: algebra_simps)
  moreover have "g mod 86400000 < 86400000" by simp
  then have "\<bar>g mod 86400000 - 86400000\<bar> < h" using r by linarith
  ultimately show ?thesis by (rule that)
qed

lemma calendar_day_of_date:
  "calendar_date tza t = (y, m, d) \<Longrightarrow> calendar_day tza t = MakeDay y (m - 1) d"
  using MakeDay_of_time[of "LocalTime tza t"]
  by (auto simp add: calendar_date_def calendar_day_def)

lemma truncated_day_of_year:
  "fst (calendar_date tza t) < 0 \<or> 99 < fst (calendar_date tza t) \<Longrightarrow>
     truncated_day tza t = calendar_day tza t"
  by (rule truncated_day_plain) (simp add: calendar_date_def)

text \<open>Evaluating \<open>daysBetween\<close> at given dates, from the days they are truncated to.\<close>

lemma daysBetween_eval:
  assumes "truncated_day tza ta = ka" "truncated_day tza tb = kb"
    and "valid_day tza ka" "valid_day tza kb"
  shows "daysBetween tza (Date (Some ta)) (Date (Some tb)) =
     Some (kb - ka + (2 * (offset_at tza ka - offset_at tza kb) + msPerDay) div (2 * msPerDay))"
  using daysBetween_days[of tza ta tb] assms by simp

lemma daysBetween_NaN_left:
  assumes "truncated_day tza ta = ka" "\<not> valid_day tza ka"
  shows "daysBetween tza (Date (Some ta)) b = None"
  using assms
  by (simp add: daysBetween_def new_Date_of_getters getTime_local_midnight Let_def
      split: option.split)

lemma daysBetween_NaN_right:
  assumes "truncated_day tza tb = kb" "\<not> valid_day tza kb"
  shows "daysBetween tza a (Date (Some tb)) = None"
  using assms
  by (simp add: daysBetween_def new_Date_of_getters getTime_local_midnight Let_def
      split: option.split)

lemma truncated_day_earliest: "truncated_day zone_west5 (- 8640000000000000) = - 100000001"
  by code_simp

lemma invalid_day_earliest: "\<not> valid_day zone_west5 (- 100000001)"
  by (simp add: valid_day_def UTC_def zone_west5_def msPerDay_def)



lemma truncated_day_NY2025:
  "truncated_day zone_NY2025 1740841200000 = 20148"
  "truncated_day zone_NY2025 1743388200000 = 20177"
  "truncated_day zone_NY2025 1762344000000 = 20397"
  "truncated_day zone_NY2025 1735750800000 = 20089"
  "truncated_day zone_NY2025 1738126800000 = 20117"
  by code_simp+

lemma valid_day_NY2025:
  "valid_day zone_NY2025 20148" "valid_day zone_NY2025 20177" "valid_day zone_NY2025 20397"
  "valid_day zone_NY2025 20089" "valid_day zone_NY2025 20117"
  by (simp_all add: valid_day_def UTC_def zone_NY2025_def msPerDay_def)

lemma daysBetween_NY2025:
  "daysBetween zone_NY2025 (Date (Some 1740841200000)) (Date (Some 1743388200000)) = Some 29"
  "daysBetween zone_NY2025 (Date (Some 1743388200000)) (Date (Some 1762344000000)) = Some 220"
  by (simp_all add: daysBetween_eval[OF truncated_day_NY2025(1,2) valid_day_NY2025(1,2)]
      daysBetween_eval[OF truncated_day_NY2025(2,3) valid_day_NY2025(2,3)]
      offset_at_def zone_NY2025_def msPerDay_def)

section \<open>The claims about daysBetween\<close>

text \<open>
  C8 fails as stated: five hours west of Greenwich, the earliest \<^verbatim>\<open>Date\<close>,
  \<open>a\<close> = \<^verbatim>\<open>new Date(-8640000000000000)\<close>, is 19:00 of the local day before, whose
  midnight lies outside the range of time values. \<^verbatim>\<open>daysBetween\<close> truncates \<open>a\<close> to the
  Invalid Date and \<open>daysBetween a a\<close> is NaN.
\<close>

theorem daysBetween_same_date_NaN:
  "calendar_date zone_west5 (- 8640000000000000) = (- 271821, 4, 19)
   \<and> new_Date zone_west5 (Some (- 271821)) (Some 3) (Some 19) = Date None
   \<and> daysBetween zone_west5 (Date (Some (- 8640000000000000)))
        (Date (Some (- 8640000000000000))) = None"
proof -
  have d: "calendar_date zone_west5 (- 8640000000000000) = (- 271821, 4, 19)" by code_simp
  have "MakeDay (- 271821) 3 19 = - 100000001"
    by (simp add: MakeDay_def DayFromYear_def DaysInYear_def DayFromMonth_def)
  then have n: "new_Date zone_west5 (Some (- 271821)) (Some 3) (Some 19) = Date None"
    using invalid_day_earliest by (simp add: new_Date_plain local_midnight_invalid)
  have e: "daysBetween zone_west5 (Date (Some (- 8640000000000000)))
        (Date (Some (- 8640000000000000))) = None"
    by (rule daysBetween_NaN_left[OF truncated_day_earliest invalid_day_earliest])
  from d n e show ?thesis by simp
qed

text \<open>
  C8, amended. For every date \<open>a\<close> whose truncation to local midnight is a valid
  \<^verbatim>\<open>Date\<close>, \<open>daysBetween a a\<close> is 0, and \<open>daysBetween a b\<close> is 0 whenever \<open>b\<close> falls on the
  local calendar day of \<open>a\<close>, whatever their times of day and whatever the time zone of
  the host.
\<close>

theorem daysBetween_same_day:
  assumes "valid_day tza (truncated_day tza ta)"
  shows "daysBetween tza (Date (Some ta)) (Date (Some ta)) = Some 0
       \<and> (calendar_day tza tb = calendar_day tza ta \<longrightarrow>
            daysBetween tza (Date (Some ta)) (Date (Some tb)) = Some 0)"
proof (intro conjI impI)
  show "daysBetween tza (Date (Some ta)) (Date (Some ta)) = Some 0"
    using assms by (simp add: daysBetween_truncated Math_round_zero)
next
  assume "calendar_day tza tb = calendar_day tza ta"
  then have "truncated_day tza tb = truncated_day tza ta"
    by (rule calendar_day_cong_truncated)
  then show "daysBetween tza (Date (Some ta)) (Date (Some tb)) = Some 0"
    using assms by (simp add: daysBetween_truncated Math_round_zero)
qed

text \<open>
  In the zone of New York, 2025-03-01 10:00 and 2025-03-01 23:30 local time (15:00Z and
  04:30Z of the next day) are on one calendar day.
\<close>

theorem daysBetween_same_day_witness:
  "truncated_day zone_NY2025 1740841200000 = 20148
   \<and> valid_day zone_NY2025 20148
   \<and> calendar_day zone_NY2025 1740889800000 = calendar_day zone_NY2025 1740841200000
   \<and> daysBetween zone_NY2025 (Date (Some 1740841200000)) (Date (Some 1740889800000)) = Some 0
   \<and> daysBetween zone_NY2025 (Date (Some 1740841200000)) (Date (Some 1740841200000)) = Some 0"
proof -
  have t: "truncated_day zone_NY2025 1740841200000 = 20148" by code_simp
  have v: "valid_day zone_NY2025 20148"
    by (simp add: valid_day_def UTC_def zone_NY2025_def msPerDay_def)
  have v': "valid_day zone_NY2025 (truncated_day zone_NY2025 1740841200000)"
    by (simp only: t v)
  have h: "calendar_day zone_NY2025 1740889800000 = calendar_day zone_NY2025 1740841200000"
    by (simp add: calendar_day_def LocalTime_def zone_NY2025_def Day_def msPerDay_def)
  show ?thesis
    using t v h daysBetween_same_day[OF v', of 1740889800000] by simp
qed

text \<open>
  C9 fails as stated: five hours west of Greenwich, with \<open>a\<close> the earliest \<^verbatim>\<open>Date\<close> and
  \<open>b\<close> = 2025-01-29 05:00Z, both \<open>daysBetween a b\<close> and \<open>daysBetween b a\<close> are NaN, and NaN
  is not the negative of NaN.
\<close>

theorem daysBetween_swap_NaN:
  "daysBetween zone_west5 (Date (Some (- 8640000000000000))) (Date (Some 1738126800000)) = None
   \<and> daysBetween zone_west5 (Date (Some 1738126800000)) (Date (Some (- 8640000000000000))) = None"
  by (simp add: daysBetween_NaN_left[OF truncated_day_earliest invalid_day_earliest]
      daysBetween_NaN_right[OF truncated_day_earliest invalid_day_earliest])

text \<open>
  C9, amended. For all dates \<open>a\<close> and \<open>b\<close> whose truncations to local midnight are valid
  \<^verbatim>\<open>Date\<close>s, on a host where the offsets at these two midnights do not differ by
  twelve hours exactly (up to whole days), \<open>daysBetween a b\<close> is an integer and
  \<open>daysBetween b a\<close> is its negative.
\<close>

theorem daysBetween_antisymmetric:
  assumes "valid_day tza (truncated_day tza ta)" "valid_day tza (truncated_day tza tb)"
    and "offsets_agree_within (msPerDay div 2) tza (truncated_day tza ta) (truncated_day tza tb)"
  shows "\<exists>n. daysBetween tza (Date (Some ta)) (Date (Some tb)) = Some n
           \<and> daysBetween tza (Date (Some tb)) (Date (Some ta)) = Some (- n)"
proof -
  define ka kb where "ka = truncated_day tza ta" and "kb = truncated_day tza tb"
  define g where "g = offset_at tza ka - offset_at tza kb"
  from assms(3) have "g mod 86400000 < 43200000 \<or> 86400000 - g mod 86400000 < 43200000"
    by (simp add: offsets_agree_within_def Let_def msPerDay_def g_def ka_def kb_def)
  then obtain n e where ne: "g = n * 86400000 + e" "\<bar>e\<bar> < 43200000"
    by (rule agree_split) simp
  have r1: "(2 * g + msPerDay) div (2 * msPerDay) = n"
    using ne(2) round_part_near[of e n] by (simp add: msPerDay_def ne(1))
  have "- g = (- n) * 86400000 + (- e)" by (simp add: ne(1))
  then have r2: "(2 * (- g) + msPerDay) div (2 * msPerDay) = - n"
    using ne(2) round_part_near[of "- e" "- n"] by (simp add: msPerDay_def)
  have ab: "daysBetween tza (Date (Some ta)) (Date (Some tb)) = Some (kb - ka + n)"
    using daysBetween_days[OF assms(1,2)] r1 by (simp add: ka_def kb_def g_def)
  have "offset_at tza kb - offset_at tza ka = - g" by (simp add: g_def)
  then have ba: "daysBetween tza (Date (Some tb)) (Date (Some ta)) = Some (ka - kb + - n)"
    using daysBetween_days[OF assms(2,1)] r2 by (simp add: ka_def kb_def)
  from ab ba show ?thesis by simp
qed

text \<open>
  In the zone of New York, from 2025-03-01 10:00 to 2025-03-30 22:30 local time, across
  the start of daylight saving: 29 days one way, -29 the other.
\<close>

theorem daysBetween_antisymmetric_witness:
  "truncated_day zone_NY2025 1740841200000 = 20148
   \<and> truncated_day zone_NY2025 1743388200000 = 20177
   \<and> valid_day zone_NY2025 20148 \<and> valid_day zone_NY2025 20177
   \<and> offsets_agree_within (msPerDay div 2) zone_NY2025 20148 20177
   \<and> daysBetween zone_NY2025 (Date (Some 1740841200000)) (Date (Some 1743388200000)) = Some 29
   \<and> daysBetween zone_NY2025 (Date (Some 1743388200000)) (Date (Some 1740841200000)) = Some (- 29)"
proof -
  have ta: "truncated_day zone_NY2025 1740841200000 = 20148" by code_simp
  have tb: "truncated_day zone_NY2025 1743388200000 = 20177" by code_simp
  have va: "valid_day zone_NY2025 20148"
    by (simp add: valid_day_def UTC_def zone_NY2025_def msPerDay_def)
  have vb: "valid_day zone_NY2025 20177"
    by (simp add: valid_day_def UTC_def zone_NY2025_def msPerDay_def)
  have o: "offsets_agree_within (msPerDay div 2) zone_NY2025 20148 20177"
    by (simp add: offsets_agree_within_def offset_at_def zone_NY2025_def msPerDay_def)
  note e = daysBetween_NY2025(1)
  have "\<exists>n. daysBetween zone_NY2025 (Date (Some 1740841200000)) (Date (Some 1743388200000))
           = Some n
        \<and> daysBetween zone_NY2025 (Date (Some 1743388200000)) (Date (Some 1740841200000))
           = Some (- n)"
    by (rule daysBetween_antisymmetric) (simp_all only: ta tb va vb o)
  with e have "daysBetween zone_NY2025 (Date (Some 1743388200000)) (Date (Some 1740841200000))
      = Some (- 29)" by auto
  with ta tb va vb o e show ?thesis by simp
qed




section \<open>The claim about the exactness of daysBetween\<close>

text \<open>
  Across a change of the zone from one side of the date line to the other the count of
  calendar days is not the count of elapsed days: in Apia, from noon of 2011-12-29 to
  noon of 2011-12-31 the calendar moves by two days and \<open>daysBetween\<close> is 1.
\<close>

lemma daysBetween_across_date_line:
  "calendar_date zone_Apia2011 1325196000000 = (2011, 12, 29)
   \<and> calendar_date zone_Apia2011 1325282400000 = (2011, 12, 31)
   \<and> calendar_day zone_Apia2011 1325282400000 - calendar_day zone_Apia2011 1325196000000 = 2
   \<and> daysBetween zone_Apia2011 (Date (Some 1325196000000)) (Date (Some 1325282400000)) = Some 1"
proof -
  have d: "calendar_date zone_Apia2011 1325196000000 = (2011, 12, 29)"
    "calendar_date zone_Apia2011 1325282400000 = (2011, 12, 31)"
    by code_simp+
  have c: "calendar_day zone_Apia2011 1325282400000 - calendar_day zone_Apia2011 1325196000000
      = 2"
    by (simp add: calendar_day_def LocalTime_def zone_Apia2011_def Day_def msPerDay_def)
  have t: "truncated_day zone_Apia2011 1325196000000 = 15337"
    "truncated_day zone_Apia2011 1325282400000 = 15339"
    by code_simp+
  have v: "valid_day zone_Apia2011 15337" "valid_day zone_Apia2011 15339"
    by (simp_all add: valid_day_def UTC_def zone_Apia2011_def msPerDay_def)
  have e: "daysBetween zone_Apia2011 (Date (Some 1325196000000)) (Date (Some 1325282400000))
      = Some 1"
    by (simp add: daysBetween_eval[OF t v] offset_at_def zone_Apia2011_def msPerDay_def)
  from d c e show ?thesis by simp
qed

text \<open>
  C3 fails as stated. The constructor \<^verbatim>\<open>new Date(year, month, date)\<close> reads a year from 0
  to 99 as 1900 + year, so a date of those years is not truncated to its own midnight:
  in UTC, \<open>a\<close> = 0099-12-31 and \<open>b\<close> = 0100-01-01 are one calendar day apart, and
  \<open>daysBetween a b\<close> is \<open>-693959\<close>, the days from 1999-12-31 back to 0100-01-01. And the
  constructor gives the Invalid Date for a midnight outside the range of time values:
  five hours west of Greenwich, from the earliest \<^verbatim>\<open>Date\<close> to the instant one day later
  the result is NaN. And in Apia, where the calendar left out 2011-12-30, from noon of
  2011-12-29 to noon of 2011-12-31 the calendar moves by two days and the result is 1.
\<close>

theorem daysBetween_first_century:
  "calendar_date zone_UTC (- 59011545600000) = (99, 12, 31)
   \<and> calendar_date zone_UTC (- 59011459200000) = (100, 1, 1)
   \<and> calendar_day zone_UTC (- 59011459200000) - calendar_day zone_UTC (- 59011545600000) = 1
   \<and> daysBetween zone_UTC (Date (Some (- 59011545600000))) (Date (Some (- 59011459200000)))
       = Some (- 693959)
   \<and> calendar_day zone_west5 (- 8639999913600000) - calendar_day zone_west5 (- 8640000000000000)
       = 1
   \<and> daysBetween zone_west5 (Date (Some (- 8640000000000000)))
       (Date (Some (- 8639999913600000))) = None
   \<and> calendar_date zone_Apia2011 1325196000000 = (2011, 12, 29)
   \<and> calendar_date zone_Apia2011 1325282400000 = (2011, 12, 31)
   \<and> calendar_day zone_Apia2011 1325282400000 - calendar_day zone_Apia2011 1325196000000 = 2
   \<and> daysBetween zone_Apia2011 (Date (Some 1325196000000)) (Date (Some 1325282400000)) = Some 1"
proof -
  have d: "calendar_date zone_UTC (- 59011545600000) = (99, 12, 31)"
    "calendar_date zone_UTC (- 59011459200000) = (100, 1, 1)"
    by code_simp+
  have c: "calendar_day zone_UTC (- 59011459200000) - calendar_day zone_UTC (- 59011545600000)
      = 1"
    "calendar_day zone_west5 (- 8639999913600000) - calendar_day zone_west5 (- 8640000000000000)
      = 1"
    by (simp_all add: calendar_day_def LocalTime_def zone_UTC_def zone_west5_def Day_def
        msPerDay_def)
  have t: "truncated_day zone_UTC (- 59011545600000) = 10956"
    "truncated_day zone_UTC (- 59011459200000) = - 683003"
    by code_simp+
  have v: "valid_day zone_UTC 10956" "valid_day zone_UTC (- 683003)"
    by (simp_all add: valid_day_def UTC_def zone_UTC_def msPerDay_def)
  have e: "daysBetween zone_UTC (Date (Some (- 59011545600000)))
      (Date (Some (- 59011459200000))) = Some (- 693959)"
    by (simp add: daysBetween_eval[OF t v] offset_at_def zone_UTC_def msPerDay_def)
  have n: "daysBetween zone_west5 (Date (Some (- 8640000000000000)))
       (Date (Some (- 8639999913600000))) = None"
    by (rule daysBetween_NaN_left[OF truncated_day_earliest invalid_day_earliest])
  from d c e n daysBetween_across_date_line show ?thesis by simp
qed

text \<open>
  C3, amended. For all dates \<open>a\<close> and \<open>b\<close> whose local years lie outside 0 to 99 and
  whose local midnights are valid \<^verbatim>\<open>Date\<close>s, on a host where the offsets at these two
  midnights differ by less than twelve hours (a daylight-saving transition between the
  two dates is allowed): \<open>daysBetween a b\<close> is the rounded quotient of the difference of
  the two local midnights by 86,400,000, and it is the exact signed number of calendar
  days from \<open>a\<close> to \<open>b\<close>. From any time of 2025-01-01 to any time of 2025-01-29 it is 28,
  and between two times of one calendar day it is 0.
\<close>

theorem daysBetween_calendar_days:
  assumes "fst (calendar_date tza ta) < 0 \<or> 99 < fst (calendar_date tza ta)"
    and "fst (calendar_date tza tb) < 0 \<or> 99 < fst (calendar_date tza tb)"
    and "valid_day tza (calendar_day tza ta)" "valid_day tza (calendar_day tza tb)"
    and "offsets_within (msPerDay div 2) tza (calendar_day tza ta) (calendar_day tza tb)"
  shows "daysBetween tza (Date (Some ta)) (Date (Some tb)) =
           Some (Math_round (of_int (UTC tza (calendar_day tza tb * msPerDay)
                                   - UTC tza (calendar_day tza ta * msPerDay))
                             / of_int msPerDay))
       \<and> daysBetween tza (Date (Some ta)) (Date (Some tb))
           = Some (calendar_day tza tb - calendar_day tza ta)
       \<and> (calendar_date tza ta = (2025, 1, 1) \<and> calendar_date tza tb = (2025, 1, 29) \<longrightarrow>
            daysBetween tza (Date (Some ta)) (Date (Some tb)) = Some 28)
       \<and> (calendar_day tza ta = calendar_day tza tb \<longrightarrow>
            daysBetween tza (Date (Some ta)) (Date (Some tb)) = Some 0)"
proof -
  have ka: "truncated_day tza ta = calendar_day tza ta"
    using assms(1) by (rule truncated_day_of_year)
  have kb: "truncated_day tza tb = calendar_day tza tb"
    using assms(2) by (rule truncated_day_of_year)
  have r: "daysBetween tza (Date (Some ta)) (Date (Some tb)) =
           Some (Math_round (of_int (UTC tza (calendar_day tza tb * msPerDay)
                                   - UTC tza (calendar_day tza ta * msPerDay))
                             / of_int msPerDay))"
    using assms(3,4) by (simp add: daysBetween_truncated ka kb)
  have "\<bar>offset_at tza (calendar_day tza ta) - offset_at tza (calendar_day tza tb)\<bar>
      < msPerDay div 2"
    using assms(5) by (simp add: offsets_within_def)
  then have z: "(2 * (offset_at tza (calendar_day tza ta) - offset_at tza (calendar_day tza tb))
      + msPerDay) div (2 * msPerDay) = 0"
    by (rule round_part_zero)
  have d: "daysBetween tza (Date (Some ta)) (Date (Some tb))
           = Some (calendar_day tza tb - calendar_day tza ta)"
    using daysBetween_days[of tza ta tb] assms(3,4) z by (simp add: ka kb)
  have c: "daysBetween tza (Date (Some ta)) (Date (Some tb)) = Some 28"
    if "calendar_date tza ta = (2025, 1, 1) \<and> calendar_date tza tb = (2025, 1, 29)"
  proof -
    have "calendar_day tza ta = MakeDay 2025 0 1"
      using that calendar_day_of_date[of tza ta 2025 1 1] by simp
    moreover have "calendar_day tza tb = MakeDay 2025 0 29"
      using that calendar_day_of_date[of tza tb 2025 1 29] by simp
    ultimately show ?thesis
      unfolding d by (simp add: MakeDay_def DayFromYear_def DaysInYear_def DayFromMonth_def)
  qed
  have s: "daysBetween tza (Date (Some ta)) (Date (Some tb)) = Some 0"
    if "calendar_day tza ta = calendar_day tza tb"
    using that unfolding d by simp
  from r d c s show ?thesis by blast
qed

text \<open>
  In the zone of New York, from 2025-03-01 10:00 to 2025-03-30 22:30 local time, across
  the start of daylight saving on 2025-03-09: the two midnights are 29 days less one
  hour apart, and the result is 29. From 2025-01-01 12:00 to 2025-01-29 00:00 it is 28.
\<close>

theorem daysBetween_calendar_days_witness:
  "calendar_date zone_NY2025 1740841200000 = (2025, 3, 1)
   \<and> calendar_date zone_NY2025 1743388200000 = (2025, 3, 30)
   \<and> calendar_day zone_NY2025 1740841200000 = 20148
   \<and> calendar_day zone_NY2025 1743388200000 = 20177
   \<and> valid_day zone_NY2025 20148 \<and> valid_day zone_NY2025 20177
   \<and> offsets_within (msPerDay div 2) zone_NY2025 20148 20177
   \<and> UTC zone_NY2025 (20177 * msPerDay) - UTC zone_NY2025 (20148 * msPerDay)
      = 29 * msPerDay - 3600000
   \<and> daysBetween zone_NY2025 (Date (Some 1740841200000)) (Date (Some 1743388200000)) = Some 29
   \<and> calendar_date zone_NY2025 1735750800000 = (2025, 1, 1)
   \<and> calendar_date zone_NY2025 1738126800000 = (2025, 1, 29)
   \<and> daysBetween zone_NY2025 (Date (Some 1735750800000)) (Date (Some 1738126800000)) = Some 28"
proof -
  have da: "calendar_date zone_NY2025 1740841200000 = (2025, 3, 1)" by code_simp
  have db: "calendar_date zone_NY2025 1743388200000 = (2025, 3, 30)" by code_simp
  have dc: "calendar_date zone_NY2025 1735750800000 = (2025, 1, 1)" by code_simp
  have dd: "calendar_date zone_NY2025 1738126800000 = (2025, 1, 29)" by code_simp
  have ca: "calendar_day zone_NY2025 1740841200000 = 20148"
    by (simp add: calendar_day_def LocalTime_def zone_NY2025_def Day_def msPerDay_def)
  have cb: "calendar_day zone_NY2025 1743388200000 = 20177"
    by (simp add: calendar_day_def LocalTime_def zone_NY2025_def Day_def msPerDay_def)
  have cc: "calendar_day zone_NY2025 1735750800000 = 20089"
    by (simp add: calendar_day_def LocalTime_def zone_NY2025_def Day_def msPerDay_def)
  have cd: "calendar_day zone_NY2025 1738126800000 = 20117"
    by (simp add: calendar_day_def LocalTime_def zone_NY2025_def Day_def msPerDay_def)
  have v: "valid_day zone_NY2025 20148" "valid_day zone_NY2025 20177"
    "valid_day zone_NY2025 20089" "valid_day zone_NY2025 20117"
    by (simp_all add: valid_day_def UTC_def zone_NY2025_def msPerDay_def)
  have o: "offsets_within (msPerDay div 2) zone_NY2025 20148 20177"
    "offsets_within (msPerDay div 2) zone_NY2025 20089 20117"
    by (simp_all add: offsets_within_def offset_at_def zone_NY2025_def msPerDay_def)
  have m: "UTC zone_NY2025 (20177 * msPerDay) - UTC zone_NY2025 (20148 * msPerDay)
      = 29 * msPerDay - 3600000"
    by (simp add: UTC_def zone_NY2025_def msPerDay_def)
  have y: "fst (calendar_date zone_NY2025 1740841200000) < 0
        \<or> 99 < fst (calendar_date zone_NY2025 1740841200000)"
    "fst (calendar_date zone_NY2025 1743388200000) < 0
        \<or> 99 < fst (calendar_date zone_NY2025 1743388200000)"
    "fst (calendar_date zone_NY2025 1735750800000) < 0
        \<or> 99 < fst (calendar_date zone_NY2025 1735750800000)"
    "fst (calendar_date zone_NY2025 1738126800000) < 0
        \<or> 99 < fst (calendar_date zone_NY2025 1738126800000)"
    by (simp_all add: da db dc dd)
  have va: "valid_day zone_NY2025 (calendar_day zone_NY2025 1740841200000)"
    and vb: "valid_day zone_NY2025 (calendar_day zone_NY2025 1743388200000)"
    and vc: "valid_day zone_NY2025 (calendar_day zone_NY2025 1735750800000)"
    and vd: "valid_day zone_NY2025 (calendar_day zone_NY2025 1738126800000)"
    by (simp_all only: ca cb cc cd v)
  have oa: "offsets_within (msPerDay div 2) zone_NY2025 (calendar_day zone_NY2025 1740841200000)
      (calendar_day zone_NY2025 1743388200000)"
    and oc: "offsets_within (msPerDay div 2) zone_NY2025
      (calendar_day zone_NY2025 1735750800000) (calendar_day zone_NY2025 1738126800000)"
    by (simp_all only: ca cb cc cd o)
  note T1 = daysBetween_calendar_days[OF y(1) y(2) va vb oa]
  note T2 = daysBetween_calendar_days[OF y(3) y(4) vc vd oc]
  from T1 have "daysBetween zone_NY2025 (Date (Some 1740841200000)) (Date (Some 1743388200000))
      = Some (calendar_day zone_NY2025 1743388200000 - calendar_day zone_NY2025 1740841200000)"
    by blast
  then have t1: "daysBetween zone_NY2025 (Date (Some 1740841200000))
      (Date (Some 1743388200000)) = Some 29"
    by (simp add: ca cb)
  from T2 dc dd have t2: "daysBetween zone_NY2025 (Date (Some 1735750800000))
      (Date (Some 1738126800000)) = Some 28"
    by blast
  from da db dc dd ca cb v o m t1 t2 show ?thesis by simp
qed

section \<open>Properties of the lookup\<close>

lemma UTC_midnight_le_iff:
  assumes "offsets_compatible tza j k"
  shows "UTC tza (j * msPerDay) \<le> UTC tza (k * msPerDay) \<longleftrightarrow> j \<le> k"
proof -
  define r where "r = offset_at tza k - offset_at tza j"
  have e: "UTC tza (k * msPerDay) - UTC tza (j * msPerDay) = k * 86400000 - j * 86400000 - r"
    by (simp add: UTC_def r_def offset_at_def msPerDay_def algebra_simps)
  have a: "\<bar>r\<bar> < max 1 \<bar>j - k\<bar> * 86400000"
    using assms by (simp add: offsets_compatible_def r_def msPerDay_def abs_minus_commute)
  show ?thesis
  proof (cases j k rule: linorder_cases)
    case less
    then have "max 1 \<bar>j - k\<bar> = k - j" by simp
    with a have "r < k * 86400000 - j * 86400000" by (simp add: algebra_simps)
    then have "UTC tza (j * msPerDay) \<le> UTC tza (k * msPerDay)" using e by linarith
    with less show ?thesis by simp
  next
    case equal
    then show ?thesis by simp
  next
    case greater
    then have "max 1 \<bar>j - k\<bar> = j - k" by simp
    with a have "- r < j * 86400000 - k * 86400000" by (simp add: algebra_simps)
    then have "\<not> UTC tza (j * msPerDay) \<le> UTC tza (k * msPerDay)" using e by linarith
    with greater show ?thesis by simp
  qed
qed

lemma Number_ge_midnights:
  assumes "valid_day tza j" "valid_day tza k" "offsets_compatible tza j k"
  shows "Number_ge (getTime (local_midnight tza k)) (getTime (local_midnight tza j)) \<longleftrightarrow> j \<le> k"
  using assms(1,2) UTC_midnight_le_iff[OF assms(3)]
  by (simp add: Number_ge_def getTime_local_midnight)

lemma Number_ge_valid:
  "Number_ge x y \<Longrightarrow> x \<noteq> None \<and> y \<noteq> None"
  by (simp add: Number_ge_def split: option.splits)

lemma truncated_day_short_year:
  assumes "0 \<le> YearFromTime (LocalTime tza t)" "YearFromTime (LocalTime tza t) \<le> 99"
  shows "- 25567 \<le> truncated_day tza t" "truncated_day tza t \<le> 10957"
    "calendar_day tza t < - 683003"
proof -
  define lt where "lt = LocalTime tza t"
  define y where "y = YearFromTime lt"
  have t: "truncated_day tza t = MakeDay (1900 + y) (MonthFromTime lt) (DateFromTime lt)"
    using assms by (simp add: truncated_day_def y_def lt_def)
  have r: "0 \<le> MonthFromTime lt" "MonthFromTime lt \<le> 11" "1 \<le> DateFromTime lt"
    "DateFromTime lt \<le> 31"
    by (simp_all add: MonthFromTime_range DateFromTime_range)
  have lo: "DayFromYear 1900 \<le> DayFromYear (1900 + y)"
    using assms by (intro DayFromYear_mono) (simp add: y_def lt_def)
  have hi: "DayFromYear (1900 + y) \<le> DayFromYear 1999"
    using assms by (intro DayFromYear_mono) (simp add: y_def lt_def)
  show "- 25567 \<le> truncated_day tza t"
    using MakeDay_bounds(1)[OF r, of "1900 + y"] lo unfolding t DayFromYear_values by linarith
  show "truncated_day tza t \<le> 10957"
    using MakeDay_bounds(2)[OF r, of "1900 + y"] hi unfolding t DayFromYear_values by linarith
  show "calendar_day tza t < - 683003"
    using assms short_year_iff[of "LocalTime tza t"] by (simp add: calendar_day_def)
qed

lemma truncated_day_not_short:
  "truncated_day tza t < - 719528 \<or> - 683003 \<le> truncated_day tza t"
proof (cases "0 \<le> YearFromTime (LocalTime tza t) \<and> YearFromTime (LocalTime tza t) \<le> 99")
  case True
  then show ?thesis using truncated_day_short_year(1)[of tza t] by linarith
next
  case False
  then have t: "truncated_day tza t = calendar_day tza t"
    by (intro truncated_day_plain) linarith
  from False have "\<not> (- 719528 \<le> calendar_day tza t \<and> calendar_day tza t < - 683003)"
    unfolding calendar_day_def short_year_iff .
  then show ?thesis unfolding t by linarith
qed

lemma truncated_day_le:
  "calendar_day tza t \<le> k \<Longrightarrow> 10957 \<le> k \<Longrightarrow> truncated_day tza t \<le> k"
proof (cases "0 \<le> YearFromTime (LocalTime tza t) \<and> YearFromTime (LocalTime tza t) \<le> 99")
  case True
  assume "10957 \<le> k"
  then show ?thesis using truncated_day_short_year(2)[of tza t] True by linarith
next
  case False
  assume "calendar_day tza t \<le> k"
  moreover have "truncated_day tza t = calendar_day tza t"
    using False by (intro truncated_day_plain) linarith
  ultimately show ?thesis by simp
qed

lemma HolidayDate_days:
  "map HolidayDate_day CNY_DATES =
     [20117, 20501, 20855, 21209, 21593, 21948, 22302, 22686, 23041, 23425, 23779, 24133]"
  by (simp add: CNY_DATES_def HolidayDate_day_def MakeDay_def DayFromYear_def DaysInYear_def
      DayFromMonth_def)

lemma HolidayDate_day_values:
  "HolidayDate_day (2025, 1, 29) = 20117" "HolidayDate_day (2026, 2, 17) = 20501"
  "HolidayDate_day (2027, 2, 6) = 20855" "HolidayDate_day (2028, 1, 26) = 21209"
  "HolidayDate_day (2029, 2, 13) = 21593" "HolidayDate_day (2030, 2, 3) = 21948"
  "HolidayDate_day (2031, 1, 23) = 22302" "HolidayDate_day (2032, 2, 11) = 22686"
  "HolidayDate_day (2033, 1, 31) = 23041" "HolidayDate_day (2034, 2, 19) = 23425"
  "HolidayDate_day (2035, 2, 8) = 23779" "HolidayDate_day (2036, 1, 28) = 24133"
  using HolidayDate_days by (simp_all add: CNY_DATES_def)

lemma table_days_values:
  "table_days =
     [20117, 20501, 20855, 21209, 21593, 21948, 22302, 22686, 23041, 23425, 23779, 24133]"
  by (simp add: table_days_def HolidayDate_days)

lemma fallback_day_value: "fallback_day = 24499"
  by (simp add: fallback_day_def MakeDay_fallback)

lemma new_Date_entry:
  "(y, m, d) \<in> set CNY_DATES \<Longrightarrow>
     new_Date tza (Some y) (Some (m - 1)) (Some d) = local_midnight tza (HolidayDate_day (y, m, d))"
  by (auto simp add: CNY_DATES_def new_Date_plain HolidayDate_day_def)

lemma new_Date_fallback:
  "new_Date tza (Some 2037) (Some 0) (Some 28) = local_midnight tza 24499"
  by (simp add: new_Date_plain MakeDay_fallback)

text \<open>The loop, when today and the entries are valid and their offsets compatible.\<close>

lemma scan_CNY_find:
  assumes "valid_day tza k"
    and "\<forall>e \<in> set es. e \<in> set CNY_DATES \<and> valid_day tza (HolidayDate_day e)
           \<and> offsets_compatible tza k (HolidayDate_day e)"
  shows "scan_CNY tza (local_midnight tza k) es =
           map_option (\<lambda>e. local_midnight tza (HolidayDate_day e))
             (find (\<lambda>e. k \<le> HolidayDate_day e) es)"
  using assms(2)
proof (induction es)
  case Nil
  then show ?case by simp
next
  case (Cons e es)
  obtain y m d where e: "e = (y, m, d)" by (cases e) auto
  from Cons.prems have p: "e \<in> set CNY_DATES" "valid_day tza (HolidayDate_day e)"
    "offsets_compatible tza k (HolidayDate_day e)"
    and rest: "\<forall>e \<in> set es. e \<in> set CNY_DATES \<and> valid_day tza (HolidayDate_day e)
           \<and> offsets_compatible tza k (HolidayDate_day e)"
    by simp_all
  have n: "new_Date tza (Some y) (Some (m - 1)) (Some d) = local_midnight tza (HolidayDate_day e)"
    using p(1) unfolding e by (rule new_Date_entry)
  have c: "Number_ge (getTime (local_midnight tza (HolidayDate_day e)))
             (getTime (local_midnight tza k)) \<longleftrightarrow> k \<le> HolidayDate_day e"
    using assms(1) p(2,3) by (rule Number_ge_midnights)
  have "scan_CNY tza (local_midnight tza k) (e # es) =
          (if k \<le> HolidayDate_day e then Some (local_midnight tza (HolidayDate_day e))
           else scan_CNY tza (local_midnight tza k) es)"
    using n c by (simp add: e Let_def)
  then show ?case using Cons.IH[OF rest] by simp
qed

text \<open>The loop finds nothing when every entry is before today, valid or not.\<close>

lemma scan_CNY_none:
  assumes "\<forall>e \<in> set es. e \<in> set CNY_DATES \<and> HolidayDate_day e < k
           \<and> offsets_compatible tza k (HolidayDate_day e)"
  shows "scan_CNY tza (local_midnight tza k) es = None"
  using assms
proof (induction es)
  case Nil
  then show ?case by simp
next
  case (Cons e es)
  obtain y m d where e: "e = (y, m, d)" by (cases e) auto
  from Cons.prems have p: "e \<in> set CNY_DATES" "HolidayDate_day e < k"
    "offsets_compatible tza k (HolidayDate_day e)"
    and rest: "\<forall>e \<in> set es. e \<in> set CNY_DATES \<and> HolidayDate_day e < k
           \<and> offsets_compatible tza k (HolidayDate_day e)"
    by simp_all
  have n: "new_Date tza (Some y) (Some (m - 1)) (Some d) = local_midnight tza (HolidayDate_day e)"
    using p(1) unfolding e by (rule new_Date_entry)
  have "\<not> UTC tza (k * msPerDay) \<le> UTC tza (HolidayDate_day e * msPerDay)"
    using p(2) by (simp add: UTC_midnight_le_iff[OF p(3)])
  then have "\<not> Number_ge (getTime (local_midnight tza (HolidayDate_day e)))
             (getTime (local_midnight tza k))"
    by (simp add: Number_ge_def getTime_local_midnight)
  then have "scan_CNY tza (local_midnight tza k) (e # es)
      = scan_CNY tza (local_midnight tza k) es"
    using n by (simp add: e Let_def)
  then show ?case using Cons.IH[OF rest] by simp
qed

text \<open>What the loop returns is an entry's \<^verbatim>\<open>Date\<close> that is not before today.\<close>

lemma scan_CNY_Some:
  assumes "scan_CNY tza today es = Some cny" "set es \<subseteq> set CNY_DATES"
  shows "\<exists>e \<in> set es. cny = local_midnight tza (HolidayDate_day e)
           \<and> Number_ge (getTime cny) (getTime today)"
  using assms
proof (induction es)
  case Nil
  then show ?case by simp
next
  case (Cons e es)
  obtain y m d where e: "e = (y, m, d)" by (cases e) auto
  from Cons.prems(2) have "(y, m, d) \<in> set CNY_DATES" by (simp add: e)
  then have n: "new_Date tza (Some y) (Some (m - 1)) (Some d)
      = local_midnight tza (HolidayDate_day e)"
    unfolding e by (rule new_Date_entry)
  show ?case
  proof (cases "Number_ge (getTime (local_midnight tza (HolidayDate_day e))) (getTime today)")
    case True
    with Cons.prems(1) n have "cny = local_midnight tza (HolidayDate_day e)"
      by (simp add: e Let_def)
    with True show ?thesis by simp
  next
    case False
    with Cons.prems(1) n have "scan_CNY tza today es = Some cny" by (simp add: e Let_def)
    moreover from Cons.prems(2) have "set es \<subseteq> set CNY_DATES" by simp
    ultimately show ?thesis using Cons.IH by auto
  qed
qed

lemma getNextCNY_scan:
  "getNextCNY tza clock =
     (case scan_CNY tza (local_midnight tza (truncated_day tza clock)) CNY_DATES of
        Some cny \<Rightarrow> cny
      | None \<Rightarrow> local_midnight tza 24499)"
proof -
  have l: "CNY_DATES ! (length CNY_DATES - 1) = (2036, 1, 28)" by (simp add: CNY_DATES_def)
  show ?thesis
    unfolding getNextCNY_def Let_def new_Date_of_getters l
    by (simp add: new_Date_fallback split: option.split)
qed

lemma find_CNY_first:
  "k \<le> 20117 \<Longrightarrow> find (\<lambda>e. k \<le> HolidayDate_day e) CNY_DATES = Some (2025, 1, 29)"
  by (simp add: CNY_DATES_def HolidayDate_day_values)

lemma find_CNY_none:
  "24133 < k \<Longrightarrow> find (\<lambda>e. k \<le> HolidayDate_day e) CNY_DATES = None"
  by (simp add: CNY_DATES_def HolidayDate_day_values)

lemma find_CNY_entry:
  "e \<in> set CNY_DATES \<Longrightarrow> find (\<lambda>e'. HolidayDate_day e \<le> HolidayDate_day e') CNY_DATES = Some e"
  by (auto simp add: CNY_DATES_def HolidayDate_day_values)

lemma find_CNY_on_or_after:
  "find (\<lambda>e. k \<le> HolidayDate_day e) CNY_DATES = Some e \<Longrightarrow> k \<le> HolidayDate_day e"
  by (auto dest: find_Some_iff[THEN iffD1])

lemma find_CNY_truncated:
  "find (\<lambda>e. truncated_day tza t \<le> HolidayDate_day e) CNY_DATES
     = find (\<lambda>e. calendar_day tza t \<le> HolidayDate_day e) CNY_DATES"
proof (cases "0 \<le> YearFromTime (LocalTime tza t) \<and> YearFromTime (LocalTime tza t) \<le> 99")
  case True
  then have "truncated_day tza t \<le> 20117" "calendar_day tza t \<le> 20117"
    using truncated_day_short_year[of tza t] by simp_all
  then show ?thesis by (simp add: find_CNY_first)
next
  case False
  then have "truncated_day tza t = calendar_day tza t"
    by (intro truncated_day_plain) auto
  then show ?thesis by simp
qed

lemma date_le_iff_day:
  assumes "(m = 1 \<and> 1 \<le> d \<and> d \<le> 31) \<or> (m = 2 \<and> 1 \<le> d \<and> d \<le> 28)"
  shows "date_le (calendar_date tza t) (y, m, d) \<longleftrightarrow> calendar_day tza t \<le> HolidayDate_day (y, m, d)"
proof -
  define lt where "lt = LocalTime tza t"
  define w where "w = (if m = 1 then d - 1 else d + 30)"
  have w: "0 \<le> w" "w < 365" using assms by (auto simp add: w_def)
  have h: "HolidayDate_day (y, m, d) = DayFromYear y + w"
    by (simp add: HolidayDate_day_def MakeDay_early[OF assms] w_def)
  have c: "calendar_day tza t = DayFromYear (YearFromTime lt) + DayWithinYear lt"
    by (simp add: calendar_day_def DayWithinYear_def lt_def)
  have l: "date_le (calendar_date tza t) (y, m, d) \<longleftrightarrow>
      YearFromTime lt < y \<or> (YearFromTime lt = y \<and>
        (MonthFromTime lt + 1 < m \<or> (MonthFromTime lt + 1 = m \<and> DateFromTime lt \<le> d)))"
    by (simp add: date_le_def calendar_date_def lt_def)
  consider "YearFromTime lt < y" | "YearFromTime lt = y" | "y < YearFromTime lt" by linarith
  then show ?thesis
  proof cases
    case 1
    then have "DayFromYear (YearFromTime lt + 1) \<le> DayFromYear y"
      by (intro DayFromYear_mono) simp
    with YearFromTime_bounds(2)[of lt] w(1) have "calendar_day tza t \<le> HolidayDate_day (y, m, d)"
      unfolding h by (simp add: calendar_day_def lt_def)
    with 1 show ?thesis by (simp add: l)
  next
    case 2
    have "calendar_day tza t \<le> HolidayDate_day (y, m, d) \<longleftrightarrow> DayWithinYear lt \<le> w"
      by (simp add: h c 2)
    with 2 show ?thesis
      by (simp add: l DayWithinYear_early[OF assms, of lt, folded w_def])
  next
    case 3
    then have "DayFromYear (y + 1) \<le> DayFromYear (YearFromTime lt)"
      by (intro DayFromYear_mono) simp
    moreover have "DayFromYear (y + 1) = DayFromYear y + DaysInYear y" by (rule DayFromYear_step)
    moreover have "365 \<le> DaysInYear y" by (simp add: DaysInYear_def)
    ultimately have "\<not> calendar_day tza t \<le> HolidayDate_day (y, m, d)"
      using YearFromTime_bounds(1)[of lt] w(2) unfolding h by (simp add: calendar_day_def lt_def)
    with 3 show ?thesis by (simp add: l)
  qed
qed

lemma date_le_CNY:
  "e \<in> set CNY_DATES \<Longrightarrow>
     date_le (calendar_date tza t) e \<longleftrightarrow> calendar_day tza t \<le> HolidayDate_day e"
  by (auto simp add: CNY_DATES_def date_le_iff_day simp del: date_le_def)

lemma date_le_fallback:
  "date_le (calendar_date tza t) (2037, 1, 28) \<longleftrightarrow> calendar_day tza t \<le> 24499"
  using date_le_iff_day[of 1 28 tza t 2037]
  by (simp add: HolidayDate_day_def MakeDay_fallback)

lemma find_CNY_date_le:
  "find (\<lambda>e. date_le (calendar_date tza t) e) CNY_DATES
     = find (\<lambda>e. calendar_day tza t \<le> HolidayDate_day e) CNY_DATES"
  by (rule find_cong) (simp_all add: date_le_CNY)

lemma nextHoliday_find:
  "nextHoliday tza now =
           (case find (\<lambda>e. calendar_day tza now \<le> HolidayDate_day e) CNY_DATES of
              Some e \<Rightarrow> local_midnight tza (HolidayDate_day e)
            | None \<Rightarrow> local_midnight tza 24499)"
proof -
  have l: "last CNY_DATES = (2036, 1, 28)" by (simp add: CNY_DATES_def)
  show ?thesis
    by (simp add: nextHoliday_def find_CNY_date_le l MakeDay_fallback split: option.split)
qed


lemma scan_CNY_invalid:
  "getTime today = None \<Longrightarrow> scan_CNY tza today es = None"
  by (induction es) (auto simp add: Number_ge_def Let_def split: option.split)

lemma table_hypotheses:
  assumes "midnights_valid tza table_days" "offsets_fit tza k table_days"
  shows "\<forall>e \<in> set CNY_DATES. e \<in> set CNY_DATES \<and> valid_day tza (HolidayDate_day e)
           \<and> offsets_compatible tza k (HolidayDate_day e)"
  using assms by (simp add: midnights_valid_def offsets_fit_def table_days_def)

lemma getNextCNY_find:
  assumes "valid_day tza (truncated_day tza clock)" "midnights_valid tza table_days"
    and "offsets_fit tza (truncated_day tza clock) table_days"
  shows "getNextCNY tza clock =
           (case find (\<lambda>e. calendar_day tza clock \<le> HolidayDate_day e) CNY_DATES of
              Some e \<Rightarrow> local_midnight tza (HolidayDate_day e)
            | None \<Rightarrow> local_midnight tza 24499)"
proof -
  have "getNextCNY tza clock =
           (case find (\<lambda>e. truncated_day tza clock \<le> HolidayDate_day e) CNY_DATES of
              Some e \<Rightarrow> local_midnight tza (HolidayDate_day e)
            | None \<Rightarrow> local_midnight tza 24499)"
    unfolding getNextCNY_scan scan_CNY_find[OF assms(1) table_hypotheses[OF assms(2,3)]]
    by (simp split: option.split)
  then show ?thesis by (simp only: find_CNY_truncated)
qed

lemma getNextCNY_same_day:
  assumes "calendar_date tza clock' = calendar_date tza clock"
  shows "getNextCNY tza clock' = getNextCNY tza clock"
proof -
  have "calendar_day tza clock' = calendar_day tza clock"
    using assms calendar_day_of_date[of tza clock'] calendar_day_of_date[of tza clock]
    by (cases "calendar_date tza clock") simp
  then have "truncated_day tza clock' = truncated_day tza clock"
    by (rule calendar_day_cong_truncated)
  then show ?thesis by (simp only: getNextCNY_scan)
qed

lemma midnights_valid_NY2025: "midnights_valid zone_NY2025 table_days"
  by (simp add: midnights_valid_def table_days_values valid_day_def UTC_def zone_NY2025_def
      msPerDay_def)

lemma local_midnight_NY2025:
  "local_midnight zone_NY2025 20117 = Date (Some 1738126800000)"
  "local_midnight zone_NY2025 20501 = Date (Some 1771304400000)"
  "local_midnight zone_NY2025 24499 = Date (Some 2116731600000)"
  by (simp_all add: local_midnight_def TimeClip_def UTC_def zone_NY2025_def msPerDay_def)

section \<open>The claims about getNextCNY\<close>

text \<open>
  C1 fails as stated: five hours west of Greenwich, at the earliest time value of a
  \<^verbatim>\<open>Date\<close> the clock reads 19:00 of -271821-04-19, whose midnight lies outside the range
  of time values. \<open>today\<close> is the Invalid Date, every comparison \<^verbatim>\<open>cny >= today\<close> is
  false, and \<open>getNextCNY\<close> returns the fallback, 2037-01-28, not the first entry.
\<close>

theorem getNextCNY_invalid_today:
  "calendar_date zone_west5 (- 8640000000000000) = (- 271821, 4, 19)
   \<and> date_less (- 271821, 4, 19) (2025, 1, 29)
   \<and> getNextCNY zone_west5 (- 8640000000000000) = Date (Some 2116731600000)
   \<and> new_Date zone_west5 (Some 2037) (Some 0) (Some 28) = Date (Some 2116731600000)
   \<and> new_Date zone_west5 (Some 2025) (Some 0) (Some 29) = Date (Some 1738126800000)"
proof -
  have d: "calendar_date zone_west5 (- 8640000000000000) = (- 271821, 4, 19)" by code_simp
  have l: "date_less (- 271821, 4, 19) (2025, 1, 29)" by (simp add: date_less_def date_le_def)
  have m: "local_midnight zone_west5 24499 = Date (Some 2116731600000)"
    "local_midnight zone_west5 20117 = Date (Some 1738126800000)"
    by (simp_all add: local_midnight_def TimeClip_def UTC_def zone_west5_def msPerDay_def)
  have "getTime (local_midnight zone_west5 (- 100000001)) = None"
    using invalid_day_earliest by (simp add: getTime_local_midnight)
  then have g: "getNextCNY zone_west5 (- 8640000000000000) = Date (Some 2116731600000)"
    by (simp add: getNextCNY_scan truncated_day_earliest scan_CNY_invalid m)
  have f: "new_Date zone_west5 (Some 2037) (Some 0) (Some 28) = Date (Some 2116731600000)"
    by (simp add: new_Date_fallback m)
  have "(2025, 1, 29) \<in> set CNY_DATES" by (simp add: CNY_DATES_def)
  from new_Date_entry[OF this, of zone_west5]
  have e: "new_Date zone_west5 (Some 2025) (Some 0) (Some 29) = Date (Some 1738126800000)"
    by (simp add: HolidayDate_day_values m)
  from d l g f e show ?thesis by simp
qed

text \<open>
  C1, amended. For every clock reading whose truncation to local midnight, \<open>today\<close>, is
  a valid \<^verbatim>\<open>Date\<close>, on a host where the midnights of the table entries are valid
  \<^verbatim>\<open>Date\<close>s whose offsets differ from that of today's midnight by less than the days
  are apart, \<open>getNextCNY\<close> returns what the specification's \<open>nextHoliday\<close> returns: the
  local midnight of the first table entry whose calendar date is on or after the
  calendar date of the reading. For a reading strictly before the first entry it is
  the first entry, 2025-01-29, and for a reading on the date of a table entry it is
  that entry. On every host the result depends on the calendar date of the reading
  only, not on its time of day.
\<close>

theorem getNextCNY_first_on_or_after:
  assumes "valid_day tza (truncated_day tza clock)"
    and "midnights_valid tza table_days"
    and "offsets_fit tza (truncated_day tza clock) table_days"
  shows "getNextCNY tza clock = nextHoliday tza clock
       \<and> (calendar_date tza clock' = calendar_date tza clock \<longrightarrow>
            getNextCNY tza clock' = getNextCNY tza clock)
       \<and> (date_less (calendar_date tza clock) (2025, 1, 29) \<longrightarrow>
            getNextCNY tza clock = new_Date tza (Some 2025) (Some 0) (Some 29))
       \<and> (\<forall>(y, m, d) \<in> set CNY_DATES.
            calendar_date tza clock = (y, m, d) \<longrightarrow>
            getNextCNY tza clock = new_Date tza (Some y) (Some (m - 1)) (Some d))"
proof (intro conjI impI ballI)
  show "getNextCNY tza clock = nextHoliday tza clock"
    by (simp only: getNextCNY_find[OF assms] nextHoliday_find)
next
  assume "calendar_date tza clock' = calendar_date tza clock"
  then show "getNextCNY tza clock' = getNextCNY tza clock"
    by (rule getNextCNY_same_day)
next
  assume "date_less (calendar_date tza clock) (2025, 1, 29)"
  then have "date_le (calendar_date tza clock) (2025, 1, 29)" by (simp add: date_less_def)
  then have "calendar_day tza clock \<le> 20117"
    by (simp add: date_le_CNY CNY_DATES_def HolidayDate_day_values del: date_le_def)
  then have "getNextCNY tza clock = local_midnight tza (HolidayDate_day (2025, 1, 29))"
    by (simp add: getNextCNY_find[OF assms] find_CNY_first)
  also have "\<dots> = new_Date tza (Some 2025) (Some (1 - 1)) (Some 29)"
    by (rule new_Date_entry[symmetric]) (simp add: CNY_DATES_def)
  finally show "getNextCNY tza clock = new_Date tza (Some 2025) (Some 0) (Some 29)" by simp
next
  fix e assume e: "e \<in> set CNY_DATES"
  show "case e of (y, m, d) \<Rightarrow>
          calendar_date tza clock = (y, m, d) \<longrightarrow>
          getNextCNY tza clock = new_Date tza (Some y) (Some (m - 1)) (Some d)"
  proof (cases e)
    case (fields y m d)
    have "getNextCNY tza clock = new_Date tza (Some y) (Some (m - 1)) (Some d)"
      if "calendar_date tza clock = (y, m, d)"
    proof -
      from that have "calendar_day tza clock = HolidayDate_day e"
        by (simp add: calendar_day_of_date HolidayDate_day_def fields)
      then show ?thesis
        using e new_Date_entry[of y m d tza]
        by (simp add: getNextCNY_find[OF assms] find_CNY_entry fields)
    qed
    then show ?thesis by (simp add: fields)
  qed
qed

text \<open>
  In the zone of New York: a reading of 2025-01-01 12:00 local time gives 2025-01-29, and
  so does 23:00 of that day; a reading of 2026-02-17 08:00, the date of the second entry,
  gives that entry.
\<close>

theorem getNextCNY_first_on_or_after_witness:
  "truncated_day zone_NY2025 1735750800000 = 20089 \<and> valid_day zone_NY2025 20089
   \<and> truncated_day zone_NY2025 1771333200000 = 20501 \<and> valid_day zone_NY2025 20501
   \<and> midnights_valid zone_NY2025 table_days
   \<and> offsets_fit zone_NY2025 20089 table_days \<and> offsets_fit zone_NY2025 20501 table_days
   \<and> calendar_date zone_NY2025 1735750800000 = (2025, 1, 1)
   \<and> calendar_date zone_NY2025 1735790400000 = (2025, 1, 1)
   \<and> date_less (2025, 1, 1) (2025, 1, 29)
   \<and> getNextCNY zone_NY2025 1735750800000 = Date (Some 1738126800000)
   \<and> getNextCNY zone_NY2025 1735790400000 = Date (Some 1738126800000)
   \<and> new_Date zone_NY2025 (Some 2025) (Some 0) (Some 29) = Date (Some 1738126800000)
   \<and> (2026, 2, 17) \<in> set CNY_DATES
   \<and> calendar_date zone_NY2025 1771333200000 = (2026, 2, 17)
   \<and> getNextCNY zone_NY2025 1771333200000 = Date (Some 1771304400000)
   \<and> new_Date zone_NY2025 (Some 2026) (Some 1) (Some 17) = Date (Some 1771304400000)"
proof -
  have t1: "truncated_day zone_NY2025 1735750800000 = 20089" by code_simp
  have t3: "truncated_day zone_NY2025 1771333200000 = 20501" by code_simp
  have v: "valid_day zone_NY2025 20089" "valid_day zone_NY2025 20501"
    by (simp_all add: valid_day_def UTC_def zone_NY2025_def msPerDay_def)
  have o: "offsets_fit zone_NY2025 20089 table_days" "offsets_fit zone_NY2025 20501 table_days"
    by (simp_all add: offsets_fit_def table_days_values offsets_compatible_def offset_at_def
        zone_NY2025_def msPerDay_def)
  have c1: "calendar_date zone_NY2025 1735750800000 = (2025, 1, 1)" by code_simp
  have c2: "calendar_date zone_NY2025 1735790400000 = (2025, 1, 1)" by code_simp
  have c3: "calendar_date zone_NY2025 1771333200000 = (2026, 2, 17)" by code_simp
  have l: "date_less (2025, 1, 1) (2025, 1, 29)" by (simp add: date_less_def date_le_def)
  have m: "(2026, 2, 17) \<in> set CNY_DATES" "(2025, 1, 29) \<in> set CNY_DATES"
    by (simp_all add: CNY_DATES_def)
  have n1: "new_Date zone_NY2025 (Some 2025) (Some 0) (Some 29) = Date (Some 1738126800000)"
    using new_Date_entry[OF m(2), of zone_NY2025]
    by (simp add: HolidayDate_day_values local_midnight_NY2025)
  have n2: "new_Date zone_NY2025 (Some 2026) (Some 1) (Some 17) = Date (Some 1771304400000)"
    using new_Date_entry[OF m(1), of zone_NY2025]
    by (simp add: HolidayDate_day_values local_midnight_NY2025)
  have h1: "valid_day zone_NY2025 (truncated_day zone_NY2025 1735750800000)"
    and h2: "offsets_fit zone_NY2025 (truncated_day zone_NY2025 1735750800000) table_days"
    and h3: "valid_day zone_NY2025 (truncated_day zone_NY2025 1771333200000)"
    and h4: "offsets_fit zone_NY2025 (truncated_day zone_NY2025 1771333200000) table_days"
    by (simp_all only: t1 t3 v o)
  note T1 = getNextCNY_first_on_or_after[OF h1 midnights_valid_NY2025 h2,
      of 1735790400000]
  note T2 = getNextCNY_first_on_or_after[OF h3 midnights_valid_NY2025 h4,
      of 1771333200000]
  from T2 m(1) have e: "calendar_date zone_NY2025 1771333200000 = (2026, 2, 17)
      \<longrightarrow> getNextCNY zone_NY2025 1771333200000
            = new_Date zone_NY2025 (Some 2026) (Some (2 - 1)) (Some 17)"
    by blast
  from T1 have s: "calendar_date zone_NY2025 1735790400000
        = calendar_date zone_NY2025 1735750800000 \<longrightarrow>
      getNextCNY zone_NY2025 1735790400000 = getNextCNY zone_NY2025 1735750800000"
    by blast
  from T1 have f: "date_less (calendar_date zone_NY2025 1735750800000) (2025, 1, 29)
      \<longrightarrow> getNextCNY zone_NY2025 1735750800000
            = new_Date zone_NY2025 (Some 2025) (Some 0) (Some 29)"
    by blast
  from f c1 l n1 have r1: "getNextCNY zone_NY2025 1735750800000 = Date (Some 1738126800000)"
    by simp
  from s c1 c2 r1 have r2: "getNextCNY zone_NY2025 1735790400000 = Date (Some 1738126800000)"
    by simp
  from e c3 n2 have r3: "getNextCNY zone_NY2025 1771333200000 = Date (Some 1771304400000)"
    by simp
  from t1 t3 v o midnights_valid_NY2025 c1 c2 c3 l m(1) n1 n2 r1 r2 r3 show ?thesis by blast
qed

text \<open>
  C2. On a host where the offsets at the midnights of the table entries differ from
  that of today's midnight by less than the days are apart, for every clock reading on
  a calendar date strictly after the last table entry, 2036-01-28, \<open>getNextCNY\<close> returns
  \<^verbatim>\<open>new Date(2037, 0, 28)\<close>: the year of the last entry plus one, with its month and
  day. \<open>getNextCNY\<close> is a total function, so there is a result for every reading.
\<close>

theorem getNextCNY_fallback:
  assumes "offsets_fit tza (truncated_day tza today) table_days"
    and "date_less (last CNY_DATES) (calendar_date tza today)"
  shows "getNextCNY tza today = new_Date tza (Some 2037) (Some 0) (Some 28)
       \<and> last CNY_DATES = (2036, 1, 28)
       \<and> new_Date tza (Some 2037) (Some 0) (Some 28)
           = new_Date tza (Some (2036 + 1)) (Some (1 - 1)) (Some 28)"
proof -
  have l: "last CNY_DATES = (2036, 1, 28)" by (simp add: CNY_DATES_def)
  have "\<not> date_le (calendar_date tza today) (last CNY_DATES)"
    using assms(2) date_le_antisym[of "calendar_date tza today" "last CNY_DATES"]
    by (auto simp add: date_less_def simp del: date_le_def)
  then have "\<not> calendar_day tza today \<le> HolidayDate_day (2036, 1, 28)"
    unfolding l by (simp add: date_le_CNY CNY_DATES_def del: date_le_def)
  then have c: "24133 < calendar_day tza today" by (simp add: HolidayDate_day_values)
  then have "\<not> (- 719528 \<le> Day (LocalTime tza today) \<and> Day (LocalTime tza today) < - 683003)"
    by (simp add: calendar_day_def)
  then have "\<not> (0 \<le> YearFromTime (LocalTime tza today)
      \<and> YearFromTime (LocalTime tza today) \<le> 99)"
    by (simp add: short_year_iff)
  then have t: "truncated_day tza today = calendar_day tza today"
    by (intro truncated_day_plain) linarith
  have "\<forall>e \<in> set CNY_DATES. e \<in> set CNY_DATES \<and> HolidayDate_day e < truncated_day tza today
           \<and> offsets_compatible tza (truncated_day tza today) (HolidayDate_day e)"
  proof
    fix e assume e: "e \<in> set CNY_DATES"
    then have "HolidayDate_day e \<le> 24133"
      by (auto simp add: CNY_DATES_def HolidayDate_day_values)
    moreover have "offsets_compatible tza (truncated_day tza today) (HolidayDate_day e)"
      using assms(1) e by (simp add: offsets_fit_def table_days_def)
    ultimately show "e \<in> set CNY_DATES \<and> HolidayDate_day e < truncated_day tza today
           \<and> offsets_compatible tza (truncated_day tza today) (HolidayDate_day e)"
      using e c t by simp
  qed
  then have "scan_CNY tza (local_midnight tza (truncated_day tza today)) CNY_DATES = None"
    by (rule scan_CNY_none)
  then have "getNextCNY tza today = local_midnight tza 24499"
    by (simp add: getNextCNY_scan)
  then show ?thesis using l by (simp add: new_Date_fallback)
qed

text \<open>
  In the zone of New York, a reading of 2036-06-01 09:30 local time gives the local
  midnight of 2037-01-28.
\<close>

theorem getNextCNY_fallback_witness:
  "truncated_day zone_NY2025 2095943400000 = 24258
   \<and> offsets_fit zone_NY2025 24258 table_days
   \<and> calendar_date zone_NY2025 2095943400000 = (2036, 6, 1)
   \<and> date_less (last CNY_DATES) (2036, 6, 1)
   \<and> getNextCNY zone_NY2025 2095943400000 = Date (Some 2116731600000)
   \<and> new_Date zone_NY2025 (Some 2037) (Some 0) (Some 28) = Date (Some 2116731600000)"
proof -
  have t: "truncated_day zone_NY2025 2095943400000 = 24258" by code_simp
  have o: "offsets_fit zone_NY2025 24258 table_days"
    by (simp add: offsets_fit_def table_days_values offsets_compatible_def offset_at_def
        zone_NY2025_def msPerDay_def)
  have c: "calendar_date zone_NY2025 2095943400000 = (2036, 6, 1)" by code_simp
  have l: "date_less (last CNY_DATES) (2036, 6, 1)"
    by (simp add: CNY_DATES_def date_less_def date_le_def)
  have h1: "offsets_fit zone_NY2025 (truncated_day zone_NY2025 2095943400000) table_days"
    by (simp only: t o)
  have h2: "date_less (last CNY_DATES) (calendar_date zone_NY2025 2095943400000)"
    by (simp only: c l)
  have v: "new_Date zone_NY2025 (Some 2037) (Some 0) (Some 28) = Date (Some 2116731600000)"
    by (simp add: new_Date_fallback local_midnight_NY2025)
  from getNextCNY_fallback[OF h1 h2] v
  have g: "getNextCNY zone_NY2025 2095943400000 = Date (Some 2116731600000)" by simp
  from t o c l g v show ?thesis by simp
qed

section \<open>Properties of the day count\<close>

lemma daysLeft_unfold:
  "daysLeft tza c1 c2
     = daysBetween tza (local_midnight tza (truncated_day tza c1)) (getNextCNY tza c2)"
  by (simp add: daysLeft_def Let_def new_Date_of_getters)

lemma daysBetween_invalid_left: "daysBetween tza (Date None) b = None"
  by (simp add: daysBetween_def Let_def getFullYear_def getMonth_def getDate_def new_Date_def
      split: option.split)

text \<open>
  A local midnight that reads back as a time of its own day is truncated to itself.
\<close>

lemma truncated_day_reads_back:
  assumes "reads_back tza k" "k < - 719528 \<or> - 683003 \<le> k"
  shows "truncated_day tza (UTC tza (k * msPerDay)) = k"
proof -
  have d: "Day (LocalTime tza (UTC tza (k * msPerDay))) = k"
    using assms(1) by (simp add: reads_back_def)
  have "\<not> (- 719528 \<le> Day (LocalTime tza (UTC tza (k * msPerDay)))
      \<and> Day (LocalTime tza (UTC tza (k * msPerDay))) < - 683003)"
    using assms(2) unfolding d by linarith
  then have "\<not> (0 \<le> YearFromTime (LocalTime tza (UTC tza (k * msPerDay)))
      \<and> YearFromTime (LocalTime tza (UTC tza (k * msPerDay))) \<le> 99)"
    by (simp add: short_year_iff)
  then have "truncated_day tza (UTC tza (k * msPerDay)) = calendar_day tza (UTC tza (k * msPerDay))"
    by (intro truncated_day_plain) linarith
  then show ?thesis by (simp add: calendar_day_def d)
qed

lemma daysLeft_midnights:
  assumes "valid_day tza (truncated_day tza c1)" "reads_back tza (truncated_day tza c1)"
    and "getNextCNY tza c2 = local_midnight tza e"
    and "valid_day tza e" "reads_back tza e" "20117 \<le> e"
  shows "daysLeft tza c1 c2 =
     Some (Math_round (of_int (UTC tza (e * msPerDay) - UTC tza (truncated_day tza c1 * msPerDay))
             / of_int msPerDay))"
proof -
  have a: "truncated_day tza (UTC tza (truncated_day tza c1 * msPerDay)) = truncated_day tza c1"
    using assms(2) truncated_day_not_short[of tza c1] by (rule truncated_day_reads_back)
  have b: "truncated_day tza (UTC tza (e * msPerDay)) = e"
    using assms(5,6) by (intro truncated_day_reads_back) simp_all
  show ?thesis
    by (simp add: daysLeft_unfold assms(3) local_midnight_valid assms(1,4)
        daysBetween_truncated a b)
qed

lemma daysLeft_eval:
  assumes "truncated_day tza c1 = k" "valid_day tza k" "reads_back tza k"
    and "getNextCNY tza c2 = local_midnight tza e"
    and "valid_day tza e" "reads_back tza e" "20117 \<le> e"
  shows "daysLeft tza c1 c2 =
     Some (e - k + (2 * (offset_at tza k - offset_at tza e) + msPerDay) div (2 * msPerDay))"
proof -
  have "daysLeft tza c1 c2 =
     Some (Math_round (of_int (UTC tza (e * msPerDay) - UTC tza (k * msPerDay))
             / of_int msPerDay))"
    using daysLeft_midnights[of tza c1 c2 e] assms by simp
  then show ?thesis by (simp only: UTC_difference Math_round_shift)
qed

lemma midnights_UTC:
  "valid_day zone_UTC 20117" "valid_day zone_UTC 20118" "valid_day zone_UTC 24499"
  "valid_day zone_UTC 24837"
  "reads_back zone_UTC 20117" "reads_back zone_UTC 20118" "reads_back zone_UTC 24499"
  "reads_back zone_UTC 24837"
  "midnights_valid zone_UTC table_days"
  "offsets_fit zone_UTC k table_days"
  by (simp_all add: valid_day_def reads_back_def midnights_valid_def offsets_fit_def
      offsets_compatible_def offset_at_def table_days_values UTC_def LocalTime_def Day_def
      zone_UTC_def msPerDay_def)

lemma truncated_day_UTC:
  "truncated_day zone_UTC 2145916800000 = 24837"
  "truncated_day zone_UTC 1738195200001 = 20118"
  "truncated_day zone_UTC 1738195199999 = 20117"
  by code_simp+

lemma calendar_day_UTC:
  "calendar_day zone_UTC 2145916800000 = 24837"
  "calendar_day zone_UTC 1738195199999 = 20117"
  by (simp_all add: calendar_day_def LocalTime_def Day_def zone_UTC_def msPerDay_def)

lemma getNextCNY_UTC:
  "getNextCNY zone_UTC 2145916800000 = local_midnight zone_UTC 24499"
  "getNextCNY zone_UTC 1738195199999 = local_midnight zone_UTC 20117"
proof -
  have "valid_day zone_UTC (truncated_day zone_UTC 2145916800000)"
    by (simp add: truncated_day_UTC midnights_UTC)
  from getNextCNY_find[OF this midnights_UTC(9) midnights_UTC(10)]
  show "getNextCNY zone_UTC 2145916800000 = local_midnight zone_UTC 24499"
    by (simp add: calendar_day_UTC find_CNY_none)
  have "valid_day zone_UTC (truncated_day zone_UTC 1738195199999)"
    by (simp add: truncated_day_UTC midnights_UTC)
  from getNextCNY_find[OF this midnights_UTC(9) midnights_UTC(10)]
  show "getNextCNY zone_UTC 1738195199999 = local_midnight zone_UTC 20117"
    by (simp add: calendar_day_UTC find_CNY_first HolidayDate_day_values)
qed

lemma midnights_NY2025:
  "reads_back zone_NY2025 20089" "reads_back zone_NY2025 24499"
  "midnights_read_back zone_NY2025 (table_days @ [fallback_day])"
  "valid_day zone_NY2025 24499"
  "offsets_compatible zone_NY2025 20089 24499" "offsets_compatible zone_NY2025 24499 24499"
  "offsets_compatible zone_NY2025 20089 20089"
  by (simp_all add: valid_day_def reads_back_def midnights_read_back_def
      offsets_compatible_def offset_at_def table_days_values fallback_day_value
      UTC_def LocalTime_def Day_def zone_NY2025_def msPerDay_def)

lemma truncated_day_NY2025_more:
  "truncated_day zone_NY2025 1735790400000 = 20089"
  "truncated_day zone_NY2025 2116796400000 = 24499"
  by code_simp+

lemma calendar_NY2025:
  "calendar_date zone_NY2025 1735750800000 = (2025, 1, 1)"
  "calendar_date zone_NY2025 2116796400000 = (2037, 1, 28)"
  "calendar_day zone_NY2025 1735790400000 = 20089"
  "calendar_day zone_NY2025 2116796400000 = 24499"
  by code_simp+

lemma getNextCNY_NY2025:
  "getNextCNY zone_NY2025 1735790400000 = local_midnight zone_NY2025 20117"
  "getNextCNY zone_NY2025 2116796400000 = local_midnight zone_NY2025 24499"
proof -
  have o: "offsets_fit zone_NY2025 20089 table_days" "offsets_fit zone_NY2025 24499 table_days"
    by (simp_all add: offsets_fit_def table_days_values offsets_compatible_def offset_at_def
        zone_NY2025_def msPerDay_def)
  have "valid_day zone_NY2025 (truncated_day zone_NY2025 1735790400000)"
    "offsets_fit zone_NY2025 (truncated_day zone_NY2025 1735790400000) table_days"
    by (simp_all add: truncated_day_NY2025_more valid_day_NY2025 o)
  from getNextCNY_find[OF this(1) midnights_valid_NY2025 this(2)]
  show "getNextCNY zone_NY2025 1735790400000 = local_midnight zone_NY2025 20117"
    by (simp add: calendar_NY2025 find_CNY_first HolidayDate_day_values)
  have "valid_day zone_NY2025 (truncated_day zone_NY2025 2116796400000)"
    "offsets_fit zone_NY2025 (truncated_day zone_NY2025 2116796400000) table_days"
    by (simp_all add: truncated_day_NY2025_more midnights_NY2025 o)
  from getNextCNY_find[OF this(1) midnights_valid_NY2025 this(2)]
  show "getNextCNY zone_NY2025 2116796400000 = local_midnight zone_NY2025 24499"
    by (simp add: calendar_NY2025 find_CNY_none)
qed

text \<open>
  When midnight falls between the two readings the day count is not that of either
  day: in UTC, with a first reading just before the midnight that begins 2025-01-30 and
  a second reading just after it, \<open>today\<close> is 2025-01-29, the holiday itself, and the
  day count is the 384 days to the next entry, 2026-02-17.
\<close>

lemma daysLeft_across_midnight:
  "daysLeft zone_UTC 1738195199999 1738195200001 = Some 384"
proof -
  have c: "calendar_day zone_UTC 1738195200001 = 20118"
    by (simp add: calendar_day_def LocalTime_def Day_def zone_UTC_def msPerDay_def)
  have v: "valid_day zone_UTC 20501" "reads_back zone_UTC 20501"
    by (simp_all add: valid_day_def reads_back_def UTC_def LocalTime_def Day_def zone_UTC_def
        msPerDay_def)
  have "valid_day zone_UTC (truncated_day zone_UTC 1738195200001)"
    by (simp add: truncated_day_UTC midnights_UTC)
  from getNextCNY_find[OF this midnights_UTC(9) midnights_UTC(10)]
  have g: "getNextCNY zone_UTC 1738195200001 = local_midnight zone_UTC 20501"
    by (simp add: c CNY_DATES_def HolidayDate_day_values)
  show ?thesis
    using daysLeft_eval[OF truncated_day_UTC(3) midnights_UTC(1) midnights_UTC(5) g v]
    by (simp add: offset_at_def zone_UTC_def msPerDay_def)
qed

section \<open>The claim about the day count\<close>

text \<open>
  C4 fails as stated. The fallback is the fixed date 2037-01-28, not a date at or after
  today: in UTC, at 2038-01-01 00:00 the day count is -338. The page reads the clock
  twice, once for \<open>today\<close> and once inside \<open>getNextCNY\<close>: in UTC, with a first reading
  just after the midnight that begins 2025-01-30 and a second reading just before it (a
  clock set back between the two), the day count is -1. And five hours west of
  Greenwich, at the earliest time value of a \<^verbatim>\<open>Date\<close>, \<open>today\<close> is the Invalid Date and
  the day count is \<^verbatim>\<open>NaN\<close>, not an integer.
\<close>

theorem daysLeft_negative_after_fallback:
  "daysLeft zone_UTC 2145916800000 2145916800000 = Some (- 338)
   \<and> daysLeft zone_UTC 1738195200001 1738195199999 = Some (- 1)
   \<and> daysLeft zone_west5 (- 8640000000000000) (- 8640000000000000) = None"
proof -
  have a: "daysLeft zone_UTC 2145916800000 2145916800000 = Some (- 338)"
    using daysLeft_eval[OF truncated_day_UTC(1) midnights_UTC(4) midnights_UTC(8)
        getNextCNY_UTC(1) midnights_UTC(3) midnights_UTC(7)]
    by (simp add: offset_at_def zone_UTC_def msPerDay_def)
  have b: "daysLeft zone_UTC 1738195200001 1738195199999 = Some (- 1)"
    using daysLeft_eval[OF truncated_day_UTC(2) midnights_UTC(2) midnights_UTC(6)
        getNextCNY_UTC(2) midnights_UTC(1) midnights_UTC(5)]
    by (simp add: offset_at_def zone_UTC_def msPerDay_def)
  have c: "daysLeft zone_west5 (- 8640000000000000) (- 8640000000000000) = None"
    using invalid_day_earliest
    by (simp add: daysLeft_unfold truncated_day_earliest local_midnight_invalid
        daysBetween_invalid_left)
  from a b c show ?thesis by simp
qed

text \<open>
  C4, amended. The page reads the clock twice. Let \<open>today\<close> be the truncation of the first
  reading to local midnight and \<open>today'\<close> that of the second reading, inside \<open>getNextCNY\<close>.
  If \<open>today\<close> is a valid \<^verbatim>\<open>Date\<close> that reads back as a time of its own day, the day of
  \<open>today'\<close> is not before that of \<open>today\<close>, the calendar date of the first reading is on
  or before 2037-01-28, and the host's zone keeps the midnights compared in order (the
  offsets at \<open>today\<close>, \<open>today'\<close> and the fallback date differ by less than the days are
  apart, the fallback midnight is a valid \<^verbatim>\<open>Date\<close>, and the midnights of the table
  entries and of the fallback date read back as times of their own days), then the day
  count is a non-negative integer.
\<close>

theorem daysLeft_nonneg:
  assumes "valid_day tza (truncated_day tza clock1)"
    and "reads_back tza (truncated_day tza clock1)"
    and "truncated_day tza clock1 \<le> truncated_day tza clock2"
    and "offsets_compatible tza (truncated_day tza clock1) (truncated_day tza clock2)"
    and "date_le (calendar_date tza clock1) (2037, 1, 28)"
    and "offsets_compatible tza (truncated_day tza clock1) fallback_day"
    and "valid_day tza fallback_day"
    and "midnights_read_back tza (table_days @ [fallback_day])"
  shows "\<exists>n. daysLeft tza clock1 clock2 = Some n \<and> 0 \<le> n"
proof -
  define k1 where "k1 = truncated_day tza clock1"
  define k2 where "k2 = truncated_day tza clock2"
  have "\<exists>e. getNextCNY tza clock2 = local_midnight tza e \<and> valid_day tza e
           \<and> reads_back tza e \<and> 20117 \<le> e
           \<and> UTC tza (k1 * msPerDay) \<le> UTC tza (e * msPerDay)"
  proof (cases "scan_CNY tza (local_midnight tza k2) CNY_DATES")
    case None
    then have g: "getNextCNY tza clock2 = local_midnight tza 24499"
      by (simp add: getNextCNY_scan k2_def)
    have "calendar_day tza clock1 \<le> 24499"
      using assms(5) by (simp only: date_le_fallback)
    then have "k1 \<le> 24499" unfolding k1_def by (rule truncated_day_le) simp
    moreover have "offsets_compatible tza k1 24499"
      using assms(6) by (simp add: k1_def fallback_day_value)
    ultimately have "UTC tza (k1 * msPerDay) \<le> UTC tza (24499 * msPerDay)"
      by (simp add: UTC_midnight_le_iff)
    moreover have "valid_day tza 24499" using assms(7) by (simp add: fallback_day_value)
    moreover have "reads_back tza 24499"
      using assms(8) by (simp add: midnights_read_back_def fallback_day_value)
    ultimately show ?thesis using g by (intro exI[of _ 24499]) simp
  next
    case (Some cny)
    then have g: "getNextCNY tza clock2 = cny" by (simp add: getNextCNY_scan k2_def)
    from scan_CNY_Some[OF Some] obtain e where e: "e \<in> set CNY_DATES"
      "cny = local_midnight tza (HolidayDate_day e)"
      "Number_ge (getTime cny) (getTime (local_midnight tza k2))"
      by auto
    from e(3) have v: "valid_day tza (HolidayDate_day e)" "valid_day tza k2"
      and o: "UTC tza (k2 * msPerDay) \<le> UTC tza (HolidayDate_day e * msPerDay)"
      unfolding e(2)
      by (auto simp add: Number_ge_def getTime_local_midnight split: if_splits)
    have "UTC tza (k1 * msPerDay) \<le> UTC tza (k2 * msPerDay)"
      using assms(3,4) by (simp add: UTC_midnight_le_iff k1_def k2_def)
    with o have "UTC tza (k1 * msPerDay) \<le> UTC tza (HolidayDate_day e * msPerDay)" by simp
    moreover have "reads_back tza (HolidayDate_day e)"
      using assms(8) e(1) by (simp add: midnights_read_back_def table_days_def)
    moreover have "20117 \<le> HolidayDate_day e"
      using e(1) by (auto simp add: CNY_DATES_def HolidayDate_day_values)
    ultimately show ?thesis using g e(2) v(1) by (intro exI[of _ "HolidayDate_day e"]) simp
  qed
  then obtain e where e: "getNextCNY tza clock2 = local_midnight tza e" "valid_day tza e"
    "reads_back tza e" "20117 \<le> e" "UTC tza (k1 * msPerDay) \<le> UTC tza (e * msPerDay)"
    by blast
  have "daysLeft tza clock1 clock2 =
     Some (Math_round (of_int (UTC tza (e * msPerDay) - UTC tza (k1 * msPerDay))
             / of_int msPerDay))"
    unfolding k1_def by (rule daysLeft_midnights[OF assms(1,2) e(1-4)])
  moreover have "0 \<le> Math_round (of_int (UTC tza (e * msPerDay) - UTC tza (k1 * msPerDay))
             / of_int msPerDay)"
    using e(5) by (intro Math_round_nonneg msPerDay_pos) simp
  ultimately show ?thesis by simp
qed

text \<open>
  In the zone of New York: readings of 12:00 and 23:00 of 2025-01-01 give 28 days, and
  two readings of 18:00 of 2037-01-28, the fallback date itself, give 0.
\<close>

theorem daysLeft_nonneg_witness:
  "truncated_day zone_NY2025 1735750800000 = 20089
   \<and> truncated_day zone_NY2025 1735790400000 = 20089
   \<and> truncated_day zone_NY2025 2116796400000 = 24499
   \<and> valid_day zone_NY2025 20089 \<and> reads_back zone_NY2025 20089
   \<and> valid_day zone_NY2025 24499 \<and> reads_back zone_NY2025 24499
   \<and> offsets_compatible zone_NY2025 20089 20089
   \<and> offsets_compatible zone_NY2025 24499 24499
   \<and> offsets_compatible zone_NY2025 20089 fallback_day
   \<and> offsets_compatible zone_NY2025 24499 fallback_day
   \<and> valid_day zone_NY2025 fallback_day
   \<and> midnights_read_back zone_NY2025 (table_days @ [fallback_day])
   \<and> calendar_date zone_NY2025 1735750800000 = (2025, 1, 1)
   \<and> calendar_date zone_NY2025 2116796400000 = (2037, 1, 28)
   \<and> date_le (2025, 1, 1) (2037, 1, 28) \<and> date_le (2037, 1, 28) (2037, 1, 28)
   \<and> (\<exists>n. daysLeft zone_NY2025 1735750800000 1735790400000 = Some n \<and> 0 \<le> n)
   \<and> (\<exists>n. daysLeft zone_NY2025 2116796400000 2116796400000 = Some n \<and> 0 \<le> n)
   \<and> daysLeft zone_NY2025 1735750800000 1735790400000 = Some 28
   \<and> daysLeft zone_NY2025 2116796400000 2116796400000 = Some 0"
proof -
  note t = truncated_day_NY2025(4) truncated_day_NY2025_more
  note m = midnights_NY2025
  have v: "valid_day zone_NY2025 20089" "valid_day zone_NY2025 20117"
    by (simp_all add: valid_day_NY2025)
  have r: "reads_back zone_NY2025 20117"
    using m(3) by (simp add: midnights_read_back_def table_days_values)
  have f: "offsets_compatible zone_NY2025 20089 fallback_day"
    "offsets_compatible zone_NY2025 24499 fallback_day" "valid_day zone_NY2025 fallback_day"
    by (simp_all add: fallback_day_value m)
  have d: "date_le (2025, 1, 1) (2037, 1, 28)" "date_le (2037, 1, 28) (2037, 1, 28)"
    by (simp_all add: date_le_def)
  have a: "\<exists>n. daysLeft zone_NY2025 1735750800000 1735790400000 = Some n \<and> 0 \<le> n"
    by (rule daysLeft_nonneg) (simp_all add: t m v f calendar_NY2025 d del: date_le_def)
  have b: "\<exists>n. daysLeft zone_NY2025 2116796400000 2116796400000 = Some n \<and> 0 \<le> n"
    by (rule daysLeft_nonneg) (simp_all add: t m v f calendar_NY2025 d del: date_le_def)
  have x: "daysLeft zone_NY2025 1735750800000 1735790400000 = Some 28"
    using daysLeft_eval[OF t(1) v(1) m(1) getNextCNY_NY2025(1) v(2) r]
    by (simp add: offset_at_def zone_NY2025_def msPerDay_def)
  have y: "daysLeft zone_NY2025 2116796400000 2116796400000 = Some 0"
    using daysLeft_eval[OF t(3) m(4) m(2) getNextCNY_NY2025(2) m(4) m(2)]
    by (simp add: offset_at_def zone_NY2025_def msPerDay_def)
  from t m v f calendar_NY2025(1,2) d a b x y show ?thesis by blast
qed

section \<open>Properties of the pattern match\<close>

lemma match_literal_prefix:
  "match_literal p s \<longleftrightarrow> prefix (map Canonicalize p) (map Canonicalize s)"
  by (induction p s rule: match_literal.induct) simp_all

lemma RegExp_test_occurs:
  "RegExp_test alts s \<longleftrightarrow> (\<exists>p \<in> set alts. occurs_ignoring_case p s)"
proof (induction s)
  case Nil
  show ?case
    by (auto simp add: occurs_ignoring_case_def list_ex_iff match_literal_prefix)
next
  case (Cons ch rest)
  have "occurs_ignoring_case p (ch # rest) \<longleftrightarrow>
          match_literal p (ch # rest) \<or> occurs_ignoring_case p rest" for p
    by (simp add: occurs_ignoring_case_def match_literal_prefix sublist_Cons_right)
  then show ?case
    using Cons.IH by (auto simp add: list_ex_iff)
qed

lemma occurs_exact:
  assumes "sublist p s"
  shows "occurs_ignoring_case p s"
proof -
  from assms obtain ps ss where "s = ps @ p @ ss" by (auto simp add: sublist_def)
  then have "map Canonicalize s = map Canonicalize ps @ map Canonicalize p @ map Canonicalize ss"
    by simp
  then show ?thesis
    unfolding occurs_ignoring_case_def by (simp only: sublist_appendI)
qed

section \<open>The claim about isMobile\<close>

text \<open>
  C7. \<open>isMobile\<close> is a function of the client string alone, and it holds exactly when
  one of the eight listed substrings occurs in the string, up to the case of letters.
  So it is true of every string that contains \<open>iPhone\<close>, and false of every string that
  contains \<open>Macintosh\<close> and in which none of the listed substrings occurs.
\<close>

theorem isMobile_substring_match:
  "(isMobile userAgent \<longleftrightarrow> (\<exists>p \<in> set mobile_alternatives. occurs_ignoring_case p userAgent))
   \<and> mobile_alternatives = [''Android'', ''iPhone'', ''iPad'', ''iPod'', ''webOS'',
        ''BlackBerry'', ''IEMobile'', ''Opera Mini'']
   \<and> (sublist ''iPhone'' userAgent \<longrightarrow> isMobile userAgent)
   \<and> (sublist ''Macintosh'' userAgent \<and>
        (\<forall>p \<in> set mobile_alternatives. \<not> occurs_ignoring_case p userAgent) \<longrightarrow>
        \<not> isMobile userAgent)"
proof -
  have e: "isMobile userAgent \<longleftrightarrow>
      (\<exists>p \<in> set mobile_alternatives. occurs_ignoring_case p userAgent)"
    by (simp only: isMobile_def RegExp_test_occurs)
  have m: "''iPhone'' \<in> set mobile_alternatives" by (simp add: mobile_alternatives_def)
  have i: "isMobile userAgent" if "sublist ''iPhone'' userAgent"
    unfolding e using m occurs_exact[OF that] by blast
  from e i show ?thesis by (auto simp add: mobile_alternatives_def simp del: set_simps)
qed

text \<open>
  The client strings of Safari on an iPhone and on a Macintosh; and a string in which
  \<open>iPad\<close> occurs in capitals only.
\<close>

theorem isMobile_substring_match_witness:
  "sublist ''iPhone'' ''Mozilla/5.0 (iPhone; CPU iPhone OS 17_0 like Mac OS X)''
   \<and> isMobile ''Mozilla/5.0 (iPhone; CPU iPhone OS 17_0 like Mac OS X)''
   \<and> sublist ''Macintosh'' ''Mozilla/5.0 (Macintosh; Intel Mac OS X 10_15_7)''
   \<and> \<not> occurs_ignoring_case ''Android'' ''Mozilla/5.0 (Macintosh; Intel Mac OS X 10_15_7)''
   \<and> \<not> occurs_ignoring_case ''iPhone'' ''Mozilla/5.0 (Macintosh; Intel Mac OS X 10_15_7)''
   \<and> \<not> occurs_ignoring_case ''iPad'' ''Mozilla/5.0 (Macintosh; Intel Mac OS X 10_15_7)''
   \<and> \<not> occurs_ignoring_case ''iPod'' ''Mozilla/5.0 (Macintosh; Intel Mac OS X 10_15_7)''
   \<and> \<not> occurs_ignoring_case ''webOS'' ''Mozilla/5.0 (Macintosh; Intel Mac OS X 10_15_7)''
   \<and> \<not> occurs_ignoring_case ''BlackBerry'' ''Mozilla/5.0 (Macintosh; Intel Mac OS X 10_15_7)''
   \<and> \<not> occurs_ignoring_case ''IEMobile'' ''Mozilla/5.0 (Macintosh; Intel Mac OS X 10_15_7)''
   \<and> \<not> occurs_ignoring_case ''Opera Mini'' ''Mozilla/5.0 (Macintosh; Intel Mac OS X 10_15_7)''
   \<and> \<not> isMobile ''Mozilla/5.0 (Macintosh; Intel Mac OS X 10_15_7)''
   \<and> isMobile ''Mozilla/5.0 (Macintosh; IPAD)''"
proof -
  have a: "sublist ''iPhone'' ''Mozilla/5.0 (iPhone; CPU iPhone OS 17_0 like Mac OS X)''"
    by code_simp
  have b: "sublist ''Macintosh'' ''Mozilla/5.0 (Macintosh; Intel Mac OS X 10_15_7)''"
    by code_simp
  have c: "\<forall>p \<in> set mobile_alternatives.
         \<not> occurs_ignoring_case p ''Mozilla/5.0 (Macintosh; Intel Mac OS X 10_15_7)''"
    by code_simp
  have d: "occurs_ignoring_case ''iPad'' ''Mozilla/5.0 (Macintosh; IPAD)''"
    by code_simp
  have m: "''iPad'' \<in> set mobile_alternatives" by (simp add: mobile_alternatives_def)
  note t1 = isMobile_substring_match[of "''Mozilla/5.0 (iPhone; CPU iPhone OS 17_0 like Mac OS X)''"]
  note t2 = isMobile_substring_match[of "''Mozilla/5.0 (Macintosh; Intel Mac OS X 10_15_7)''"]
  note t3 = isMobile_substring_match[of "''Mozilla/5.0 (Macintosh; IPAD)''"]
  from t1 a have r1: "isMobile ''Mozilla/5.0 (iPhone; CPU iPhone OS 17_0 like Mac OS X)''"
    by blast
  from t2 b c have r2: "\<not> isMobile ''Mozilla/5.0 (Macintosh; Intel Mac OS X 10_15_7)''"
    by blast
  from t3 d m have r3: "isMobile ''Mozilla/5.0 (Macintosh; IPAD)''"
    by blast
  from c have n: "\<not> occurs_ignoring_case ''Android'' ''Mozilla/5.0 (Macintosh; Intel Mac OS X 10_15_7)''
   \<and> \<not> occurs_ignoring_case ''iPhone'' ''Mozilla/5.0 (Macintosh; Intel Mac OS X 10_15_7)''
   \<and> \<not> occurs_ignoring_case ''iPad'' ''Mozilla/5.0 (Macintosh; Intel Mac OS X 10_15_7)''
   \<and> \<not> occurs_ignoring_case ''iPod'' ''Mozilla/5.0 (Macintosh; Intel Mac OS X 10_15_7)''
   \<and> \<not> occurs_ignoring_case ''webOS'' ''Mozilla/5.0 (Macintosh; Intel Mac OS X 10_15_7)''
   \<and> \<not> occurs_ignoring_case ''BlackBerry'' ''Mozilla/5.0 (Macintosh; Intel Mac OS X 10_15_7)''
   \<and> \<not> occurs_ignoring_case ''IEMobile'' ''Mozilla/5.0 (Macintosh; Intel Mac OS X 10_15_7)''
   \<and> \<not> occurs_ignoring_case ''Opera Mini'' ''Mozilla/5.0 (Macintosh; Intel Mac OS X 10_15_7)''"
    by (simp add: mobile_alternatives_def)
  from a b n r1 r2 r3 show ?thesis by blast
qed

section \<open>Properties of the export handlers\<close>

lemma showToast_effects: "showToast msg = (Inr (), [SetToast (Some msg), SetTimeout 2000])"
  by (simp add: showToast_def bind_def emit_def)

lemma captureCard_cases:
  "captureCard b =
     (case cardRef_current b of
        None \<Rightarrow> (Inr None, [])
      | Some node \<Rightarrow>
          (case html2canvas b node of Inl e \<Rightarrow> (Inl e, []) | Inr c \<Rightarrow> (Inr (Some c), [])))"
  by (simp add: captureCard_def ret_def bind_def answer_def split: option.split sum.split)

lemma copyToClipboard_cases:
  "copyToClipboard b =
     (case cardRef_current b of
        None \<Rightarrow> (Inr (), [])
      | Some node \<Rightarrow>
          (case html2canvas b node of
             Inl e \<Rightarrow> showToast CopyFailed
           | Inr c \<Rightarrow>
               (case toBlob b c of
                  Inl e \<Rightarrow> showToast CopyFailed
                | Inr None \<Rightarrow> (Inr (), [])
                | Inr (Some bl) \<Rightarrow>
                    (case clipboard_write b bl of
                       Inl e \<Rightarrow> showToast CopyFailed
                     | Inr u \<Rightarrow> (Inr (), ClipboardWrite bl # snd (showToast Copied))))))"
  by (simp add: copyToClipboard_def captureCard_cases canvas_toBlob_def
      navigator_clipboard_write_def showToast_effects try_catch_def bind_def ret_def throw_def
      emit_def answer_def detached_def split: option.split sum.split)

lemma downloadImage_cases:
  "downloadImage b days =
     (case cardRef_current b of
        None \<Rightarrow> (Inr (), [])
      | Some node \<Rightarrow>
          (case html2canvas b node of
             Inl e \<Rightarrow> showToast SaveFailed
           | Inr c \<Rightarrow>
               (case toDataURL b c of
                  Inl e \<Rightarrow> showToast SaveFailed
                | Inr url \<Rightarrow> (Inr (), Download url days # snd (showToast Saved)))))"
  by (simp add: downloadImage_def captureCard_cases showToast_effects try_catch_def bind_def
      ret_def emit_def answer_def split: option.split sum.split)

section \<open>The claims about the export handlers\<close>

text \<open>
  C5 fails as stated: with no card mounted (\<^verbatim>\<open>cardRef.current\<close> is \<^verbatim>\<open>null\<close>) both
  handlers return at \<^verbatim>\<open>if (!canvas) return\<close> with no notification, and so does
  \<^verbatim>\<open>copyToClipboard\<close> when \<^verbatim>\<open>toBlob\<close> yields no blob (\<^verbatim>\<open>if (!blob) return\<close>).
\<close>

theorem export_fails_silently:
  "captureCard (browser_ok\<lparr>cardRef_current := None\<rparr>) = (Inr None, [])
   \<and> copyToClipboard (browser_ok\<lparr>cardRef_current := None\<rparr>) = (Inr (), [])
   \<and> downloadImage (browser_ok\<lparr>cardRef_current := None\<rparr>) 28 = (Inr (), [])
   \<and> copyToClipboard (browser_ok\<lparr>toBlob := \<lambda>_. Inr None\<rparr>) = (Inr (), [])"
  by (simp add: captureCard_cases copyToClipboard_cases downloadImage_cases browser_ok_def)

text \<open>
  C5, amended. Every failure that is raised as an exception or a rejection ends in the
  failure notification of the operation, and in no other effect: \<^verbatim>\<open>html2canvas\<close>
  rejecting (both handlers), \<^verbatim>\<open>toBlob\<close> throwing or the clipboard write being rejected
  (\<^verbatim>\<open>copyToClipboard\<close>), \<^verbatim>\<open>toDataURL\<close> throwing (\<^verbatim>\<open>downloadImage\<close>). A null card
  reference, and a null blob from \<^verbatim>\<open>toBlob\<close>, end the operation with no notification
  and no other effect.
\<close>

theorem export_failure_notifications:
  "(cardRef_current b = Some node \<and> html2canvas b node = Inl e \<longrightarrow>
      snd (copyToClipboard b) = [SetToast (Some CopyFailed), SetTimeout 2000] \<and>
      snd (downloadImage b days) = [SetToast (Some SaveFailed), SetTimeout 2000])
   \<and> (cardRef_current b = Some node \<and> html2canvas b node = Inr c \<and> toBlob b c = Inl e \<longrightarrow>
      snd (copyToClipboard b) = [SetToast (Some CopyFailed), SetTimeout 2000])
   \<and> (cardRef_current b = Some node \<and> html2canvas b node = Inr c \<and>
       toBlob b c = Inr (Some bl) \<and> clipboard_write b bl = Inl e \<longrightarrow>
      snd (copyToClipboard b) = [SetToast (Some CopyFailed), SetTimeout 2000])
   \<and> (cardRef_current b = Some node \<and> html2canvas b node = Inr c \<and> toDataURL b c = Inl e \<longrightarrow>
      snd (downloadImage b days) = [SetToast (Some SaveFailed), SetTimeout 2000])
   \<and> (cardRef_current b = None \<longrightarrow>
      snd (copyToClipboard b) = [] \<and> snd (downloadImage b days) = [])
   \<and> (cardRef_current b = Some node \<and> html2canvas b node = Inr c \<and> toBlob b c = Inr None \<longrightarrow>
      snd (copyToClipboard b) = [])"
  by (simp add: copyToClipboard_cases downloadImage_cases showToast_effects)

theorem export_failure_notifications_witness:
  "snd (copyToClipboard (browser_ok\<lparr>html2canvas := \<lambda>_. Inl RenderError\<rparr>))
     = [SetToast (Some CopyFailed), SetTimeout 2000]
   \<and> snd (downloadImage (browser_ok\<lparr>html2canvas := \<lambda>_. Inl RenderError\<rparr>) 28)
     = [SetToast (Some SaveFailed), SetTimeout 2000]
   \<and> snd (copyToClipboard (browser_ok\<lparr>toBlob := \<lambda>_. Inl SecurityError\<rparr>))
     = [SetToast (Some CopyFailed), SetTimeout 2000]
   \<and> snd (copyToClipboard (browser_ok\<lparr>clipboard_write := \<lambda>_. Inl NotAllowedError\<rparr>))
     = [SetToast (Some CopyFailed), SetTimeout 2000]
   \<and> snd (downloadImage (browser_ok\<lparr>toDataURL := \<lambda>_. Inl SecurityError\<rparr>) 28)
     = [SetToast (Some SaveFailed), SetTimeout 2000]
   \<and> snd (copyToClipboard (browser_ok\<lparr>cardRef_current := None\<rparr>)) = []
   \<and> snd (downloadImage (browser_ok\<lparr>cardRef_current := None\<rparr>) 28) = []
   \<and> snd (copyToClipboard (browser_ok\<lparr>toBlob := \<lambda>_. Inr None\<rparr>)) = []"
proof -
  note t1 = export_failure_notifications[of "browser_ok\<lparr>html2canvas := \<lambda>_. Inl RenderError\<rparr>"
      "Element 0" RenderError 28 "Canvas 0" "Blob 0"]
  note t2 = export_failure_notifications[of "browser_ok\<lparr>toBlob := \<lambda>_. Inl SecurityError\<rparr>"
      "Element 0" SecurityError 28 "Canvas 0" "Blob 0"]
  note t3 = export_failure_notifications[of
      "browser_ok\<lparr>clipboard_write := \<lambda>_. Inl NotAllowedError\<rparr>"
      "Element 0" NotAllowedError 28 "Canvas 0" "Blob 0"]
  note t4 = export_failure_notifications[of "browser_ok\<lparr>toDataURL := \<lambda>_. Inl SecurityError\<rparr>"
      "Element 0" SecurityError 28 "Canvas 0" "Blob 0"]
  note t5 = export_failure_notifications[of "browser_ok\<lparr>cardRef_current := None\<rparr>"
      "Element 0" RenderError 28 "Canvas 0" "Blob 0"]
  note t6 = export_failure_notifications[of "browser_ok\<lparr>toBlob := \<lambda>_. Inr None\<rparr>"
      "Element 0" RenderError 28 "Canvas 0" "Blob 0"]
  show ?thesis
    using t1 t2 t3 t4 t5 t6 by (simp add: browser_ok_def)
qed

text \<open>
  C6. No exception leaves \<open>copyToClipboard\<close> or \<open>downloadImage\<close>, and none leaves the
  callback that \<open>copyToClipboard\<close> hands to \<^verbatim>\<open>toBlob\<close> (no unhandled rejection), whatever
  the browser answers. With a null card reference \<open>captureCard\<close> returns \<^verbatim>\<open>null\<close> and the
  handlers have no effect at all: no clipboard write and no download.
\<close>

theorem export_contains_failures:
  "fst (copyToClipboard b) = Inr ()
   \<and> fst (downloadImage b days) = Inr ()
   \<and> UnhandledRejection e \<notin> set (snd (copyToClipboard b))
   \<and> (cardRef_current b = None \<longrightarrow>
        captureCard b = ret None \<and>
        snd (copyToClipboard b) = [] \<and> snd (downloadImage b days) = [])"
  by (simp add: copyToClipboard_cases downloadImage_cases captureCard_cases showToast_effects
      ret_def split: option.split sum.split)

theorem export_contains_failures_witness:
  "cardRef_current (browser_ok\<lparr>cardRef_current := None\<rparr>) = None
   \<and> copyToClipboard (browser_ok\<lparr>cardRef_current := None\<rparr>) = (Inr (), [])
   \<and> downloadImage (browser_ok\<lparr>cardRef_current := None\<rparr>) 28 = (Inr (), [])"
proof -
  have h: "cardRef_current (browser_ok\<lparr>cardRef_current := None\<rparr>) = None" by simp
  show ?thesis
    using h export_contains_failures[of "browser_ok\<lparr>cardRef_current := None\<rparr>" 28]
    by (simp add: prod_eq_iff)
qed

end
